theory Spec2Isabelle
  imports Complex_Main "HOL-Library.List_Lexorder" "HOL-Library.Sublist" "HOL-Library.Multiset"
begin

section \<open>Superstore dashboard: data model\<close>

text \<open>
  The program is the script \<^verbatim>\<open>my_dashboard.py\<close>: it loads \<^verbatim>\<open>Superstore.csv\<close> into a
  pandas data frame, offers two drop-down filters (Region and Category), shows the
  filtered rows and three summary numbers.

  A Python \<^verbatim>\<open>str\<close> is a sequence of Unicode code points and compares code point by code
  point; it is modelled as a list of naturals with the lexicographic order of
  \<open>List_Lexorder\<close>. The file is decoded with cp1252, whose characters may lie above 255,
  so bytes would not give Python's order.
\<close>

type_synonym pystr = "nat list"

abbreviation (input) str :: "string \<Rightarrow> pystr" where
  "str s \<equiv> map of_char s"

subsection \<open>Binary64 numbers\<close>

text \<open>
  The numeric columns (\<^verbatim>\<open>Sales\<close>, \<^verbatim>\<open>Profit\<close>, \<^verbatim>\<open>Discount\<close>) are float64. A float64 is
  a finite number, an infinity or NaN; a finite one is given by its value. The two zeros
  are not told apart (they compare equal and differ only in how they print).
\<close>

datatype float64 = Finite real | PInf | MInf | NaN

text \<open>Rounding to the nearest integer, a tie going to the even one.\<close>

definition round_half_even :: "real \<Rightarrow> int" where
  "round_half_even y =
     (let f = \<lfloor>y\<rfloor>; d = y - of_int f
      in if d < 1 / 2 then f else if 1 / 2 < d then f + 1 else if even f then f else f + 1)"

text \<open>
  A non-negative number is scaled by \<open>2 ^ 1074\<close>, so that the smallest positive float64
  becomes 1, and then halved until it is below \<open>2 ^ 53\<close>: the count \<open>k\<close> of halvings
  gives the spacing \<open>2 ^ k / 2 ^ 1074\<close> of the float64 numbers around it. The count
  stays 0 in the subnormal range and stops at 2045, the spacing of the largest finite
  numbers.
\<close>

function normalise :: "real \<Rightarrow> nat \<Rightarrow> real \<times> nat" where
  "normalise y k = (if 2 ^ 53 \<le> y \<and> k < 2045 then normalise (y / 2) (Suc k) else (y, k))"
  by pat_completeness auto
termination
  by (relation "measure (\<lambda>(y, k). 2045 - k)") auto

text \<open>
  Round to nearest, ties to even, of a non-negative real: the scaled number is rounded to
  an integer multiple of the spacing; a result of \<open>2 ^ 1024\<close> or more overflows to
  infinity.
\<close>

definition round_pos :: "real \<Rightarrow> float64" where
  "round_pos x =
     (case normalise (x * 2 ^ 1074) 0 of (y, k) \<Rightarrow>
        (let m = round_half_even y
         in if 2 ^ 2098 \<le> of_int m * (2::real) ^ k then PInf
            else Finite (of_int m * 2 ^ k / 2 ^ 1074)))"

fun fneg :: "float64 \<Rightarrow> float64" where
  "fneg (Finite x) = Finite (- x)"
| "fneg PInf = MInf"
| "fneg MInf = PInf"
| "fneg NaN = NaN"

definition round64 :: "real \<Rightarrow> float64" where
  "round64 x = (if 0 \<le> x then round_pos x else fneg (round_pos (- x)))"

text \<open>Addition, multiplication and division of IEEE 754: the exact result, rounded.\<close>

fun fadd :: "float64 \<Rightarrow> float64 \<Rightarrow> float64" where
  "fadd NaN b = NaN"
| "fadd a NaN = NaN"
| "fadd PInf MInf = NaN"
| "fadd MInf PInf = NaN"
| "fadd PInf b = PInf"
| "fadd a PInf = PInf"
| "fadd MInf b = MInf"
| "fadd a MInf = MInf"
| "fadd (Finite x) (Finite y) = round64 (x + y)"

text \<open>An infinity with the sign of the real \<open>s\<close>.\<close>

definition signed_inf :: "real \<Rightarrow> float64" where
  "signed_inf s = (if 0 \<le> s then PInf else MInf)"

fun fmul :: "float64 \<Rightarrow> float64 \<Rightarrow> float64" where
  "fmul NaN b = NaN"
| "fmul a NaN = NaN"
| "fmul (Finite x) (Finite y) = round64 (x * y)"
| "fmul (Finite x) PInf = (if x = 0 then NaN else signed_inf x)"
| "fmul (Finite x) MInf = (if x = 0 then NaN else signed_inf (- x))"
| "fmul PInf (Finite y) = (if y = 0 then NaN else signed_inf y)"
| "fmul MInf (Finite y) = (if y = 0 then NaN else signed_inf (- y))"
| "fmul PInf PInf = PInf"
| "fmul MInf MInf = PInf"
| "fmul PInf MInf = MInf"
| "fmul MInf PInf = MInf"

fun fdiv :: "float64 \<Rightarrow> float64 \<Rightarrow> float64" where
  "fdiv NaN b = NaN"
| "fdiv a NaN = NaN"
| "fdiv (Finite x) (Finite y) =
     (if y = 0 then (if x = 0 then NaN else signed_inf x) else round64 (x / y))"
| "fdiv (Finite x) PInf = Finite 0"
| "fdiv (Finite x) MInf = Finite 0"
| "fdiv PInf (Finite y) = signed_inf y"
| "fdiv MInf (Finite y) = signed_inf (- y)"
| "fdiv a b = NaN"

subsection \<open>Rows\<close>

text \<open>
  The value of a parsed \<^verbatim>\<open>Order Date\<close> cell: a calendar date and the time of day in
  nanoseconds after midnight. The null date (NaT) is \<open>None\<close>.
\<close>

record timestamp =
  year :: nat
  month :: nat
  day :: nat
  nanos :: nat

text \<open>
  One row of the data frame. The type parameter is the type of the \<^verbatim>\<open>Order Date\<close> cell:
  \<open>pystr option\<close> as \<^verbatim>\<open>read_csv\<close> delivers it (text, or missing), \<open>timestamp option\<close>
  after \<^verbatim>\<open>to_datetime\<close>.
\<close>

record 'd row =
  Region :: pystr
  Category :: pystr
  Order_Date :: 'd
  Sales :: float64
  Profit :: float64
  Discount :: float64

type_synonym raw_table = "pystr option row list"
type_synonym table = "timestamp option row list"

section \<open>Filtering logic (lines 50 to 60)\<close>

text \<open>The sentinel of both drop-downs, the literal \<^verbatim>\<open>'All'\<close>.\<close>

definition All_sentinel :: pystr where
  "All_sentinel = str ''All''"

text \<open>\<^verbatim>\<open>store_data.copy()\<close>: a new frame with the same rows.\<close>

definition copy :: "'d row list \<Rightarrow> 'd row list" where
  "copy store_data = store_data"

text \<open>
  Lines 54 to 56:
  \<^verbatim>\<open>if chosen_region != 'All': filtered_data = filtered_data[filtered_data['Region'] == chosen_region]\<close>.
  Indexing a frame with a boolean mask keeps the rows whose mask entry is true, in order.
\<close>

definition by_region :: "pystr \<Rightarrow> 'd row list \<Rightarrow> 'd row list" where
  "by_region chosen_region filtered_data =
     (if chosen_region \<noteq> All_sentinel
      then filter (\<lambda>r. Region r = chosen_region) filtered_data
      else filtered_data)"

text \<open>Lines 58 to 60, the same for \<^verbatim>\<open>Category\<close>.\<close>

definition by_category :: "pystr \<Rightarrow> 'd row list \<Rightarrow> 'd row list" where
  "by_category chosen_category filtered_data =
     (if chosen_category \<noteq> All_sentinel
      then filter (\<lambda>r. Category r = chosen_category) filtered_data
      else filtered_data)"

text \<open>Lines 52 to 60: copy, then the Region filter, then the Category filter.\<close>

definition filtered_data :: "pystr \<Rightarrow> pystr \<Rightarrow> 'd row list \<Rightarrow> 'd row list" where
  "filtered_data chosen_region chosen_category store_data =
     by_category chosen_category (by_region chosen_region (copy store_data))"

section \<open>Quick summary (lines 72 to 84)\<close>

subsection \<open>The reductions of pandas\<close>

text \<open>
  \<^verbatim>\<open>Series.sum()\<close> and \<^verbatim>\<open>Series.mean()\<close> skip missing cells (NaN): the cells are replaced
  by zero, the column is added up by numpy, and the mean divides the sum by the number of
  cells that are not missing (as a float64); a column with no such cell has mean NaN.

  The order in which numpy adds the cells of an array is a matter of the library (one
  after the other for short arrays, in blocks and pairs for long ones). The summation
  is therefore the parameter \<open>np_sum\<close>. What every such order has in common is written
  down as a relation: \<open>is_float_sum xs s\<close> holds when \<open>s\<close> is obtained from the cells
  \<open>xs\<close> by float64 additions, in some order and grouping, possibly starting from zero.
\<close>

inductive is_float_sum :: "float64 list \<Rightarrow> float64 \<Rightarrow> bool" where
  zero: "is_float_sum [] (Finite 0)"
| one: "is_float_sum [x] x"
| add: "is_float_sum xs a \<Longrightarrow> is_float_sum ys b \<Longrightarrow> is_float_sum (xs @ ys) (fadd a b)"
| reorder: "is_float_sum xs a \<Longrightarrow> mset ys = mset xs \<Longrightarrow> is_float_sum ys a"

definition float_summation :: "(float64 list \<Rightarrow> float64) \<Rightarrow> bool" where
  "float_summation np_sum = (\<forall>xs. is_float_sum xs (np_sum xs))"

text \<open>One such order: from zero, one cell after the other.\<close>

definition sequential_sum :: "float64 list \<Rightarrow> float64" where
  "sequential_sum xs = foldl fadd (Finite 0) xs"

definition fillna0 :: "float64 list \<Rightarrow> float64 list" where
  "fillna0 xs = map (\<lambda>x. if x = NaN then Finite 0 else x) xs"

definition series_sum :: "(float64 list \<Rightarrow> float64) \<Rightarrow> float64 list \<Rightarrow> float64" where
  "series_sum np_sum xs = np_sum (fillna0 xs)"

definition series_mean :: "(float64 list \<Rightarrow> float64) \<Rightarrow> float64 list \<Rightarrow> float64" where
  "series_mean np_sum xs =
     (let count = length (filter (\<lambda>x. x \<noteq> NaN) xs);
          the_sum = np_sum (fillna0 xs)
      in if 0 < count then fdiv the_sum (round64 (real count)) else NaN)"

subsection \<open>The summary\<close>

record summary =
  sum_sales :: float64
  sum_profit :: float64
  avg_discount_perc :: float64

text \<open>
  The summary is computed under \<^verbatim>\<open>if not filtered_data.empty\<close> only; otherwise nothing is
  computed, which is \<open>None\<close>. The factor in \<^verbatim>\<open>mean() * 100\<close> is the float64 100.
\<close>

definition quick_summary :: "(float64 list \<Rightarrow> float64) \<Rightarrow> 'd row list \<Rightarrow> summary option" where
  "quick_summary np_sum filtered =
     (if filtered \<noteq> []
      then Some \<lparr> sum_sales = series_sum np_sum (map Sales filtered),
                  sum_profit = series_sum np_sum (map Profit filtered),
                  avg_discount_perc =
                    fmul (series_mean np_sum (map Discount filtered)) (Finite 100) \<rparr>
      else None)"

text \<open>The engine of the specification: the filtered subset together with its summary.\<close>

definition apply_selection ::
  "(float64 list \<Rightarrow> float64) \<Rightarrow> 'd row list \<Rightarrow> pystr \<Rightarrow> pystr \<Rightarrow> 'd row list \<times> summary option"
where
  "apply_selection np_sum store_data chosen_region chosen_category =
     (let filtered = filtered_data chosen_region chosen_category store_data
      in (filtered, quick_summary np_sum filtered))"

section \<open>Drop-down options (lines 43 and 47)\<close>

text \<open>
  \<^verbatim>\<open>Series.unique()\<close> returns the distinct values of a column in order of first
  appearance.
\<close>

fun unique :: "'a list \<Rightarrow> 'a list" where
  "unique [] = []"
| "unique (x # xs) = x # unique (filter (\<lambda>y. y \<noteq> x) xs)"

text \<open>
  \<^verbatim>\<open>sorted(store_data[attribute].unique())\<close>, the \<^verbatim>\<open>distinctValues\<close> of the
  specification. The attribute is given by its column selector. Python's \<^verbatim>\<open>sorted\<close> on
  strings orders by code points; on a list without duplicates every correct sort returns
  the same list, here insertion sort.
\<close>

definition distinctValues :: "'d row list \<Rightarrow> ('d row \<Rightarrow> pystr) \<Rightarrow> pystr list" where
  "distinctValues store_data attribute = sort (unique (map attribute store_data))"

definition region_options :: "'d row list \<Rightarrow> pystr list" where
  "region_options store_data = [All_sentinel] @ distinctValues store_data Region"

definition category_options :: "'d row list \<Rightarrow> pystr list" where
  "category_options store_data = [All_sentinel] @ distinctValues store_data Category"

section \<open>The filtering logic on a store of frames\<close>

text \<open>
  A data frame is a mutable object. To speak about what the filtering does to the frame
  bound to \<^verbatim>\<open>store_data\<close>, frames live in a store, a list indexed by references; a
  variable holds a reference. \<^verbatim>\<open>DataFrame.copy()\<close> and indexing with a boolean mask both
  build a new frame and leave their operand alone; an assignment to the variable
  \<^verbatim>\<open>filtered_data\<close> rebinds the reference.
\<close>

type_synonym ref = nat
type_synonym 'd frames = "'d row list list"

definition new_frame :: "'d row list \<Rightarrow> 'd frames \<Rightarrow> ref \<times> 'd frames" where
  "new_frame rows h = (length h, h @ [rows])"

definition frame_copy :: "ref \<Rightarrow> 'd frames \<Rightarrow> ref \<times> 'd frames" where
  "frame_copy df h = new_frame (copy (h ! df)) h"

definition frame_mask :: "ref \<Rightarrow> ('d row \<Rightarrow> bool) \<Rightarrow> 'd frames \<Rightarrow> ref \<times> 'd frames" where
  "frame_mask df keep h = new_frame (filter keep (h ! df)) h"

definition filtering_logic :: "ref \<Rightarrow> pystr \<Rightarrow> pystr \<Rightarrow> 'd frames \<Rightarrow> ref \<times> 'd frames" where
  "filtering_logic store_data chosen_region chosen_category h =
     (let (fd, h1) = frame_copy store_data h;
          (fd, h2) = (if chosen_region \<noteq> All_sentinel
                      then frame_mask fd (\<lambda>r. Region r = chosen_region) h1
                      else (fd, h1));
          (fd, h3) = (if chosen_category \<noteq> All_sentinel
                      then frame_mask fd (\<lambda>r. Category r = chosen_category) h2
                      else (fd, h2))
      in (fd, h3))"

section \<open>Data loading (lines 14 to 29)\<close>

datatype py_exception =
  FileNotFoundError | PermissionError | UnicodeDecodeError | ParserError | EmptyDataError
  | ValueError

text \<open>
  What the page shows. Only the calls and the data they carry are kept, not the wording
  of the messages or the number formats. The two \<^verbatim>\<open>print\<close> traces of the loader and of
  the filters go to the terminal and are left out.
\<close>

datatype ui_event =
    StError pystr
  | StInfo
  | StTitle
  | StWrite
  | SidebarHeader
  | Selectbox "pystr list"
  | StHeader
  | StMarkdown pystr pystr
  | StFound nat
  | StDataframe table
  | StSubheader
  | StMetrics summary
  | StWarning

subsection \<open>The format \<^verbatim>\<open>%m/%d/%Y\<close>\<close>

text \<open>
  A format is a sequence of directives and literal characters; the source's format
  \<^verbatim>\<open>'%m/%d/%Y'\<close> is month, slash, day, slash, year.
\<close>

datatype directive = Dir_m | Dir_d | Dir_Y | Slash

definition format_mdY :: "directive list" where
  "format_mdY = [Dir_m, Slash, Dir_d, Slash, Dir_Y]"

definition is_digit :: "nat \<Rightarrow> bool" where
  "is_digit c = (48 \<le> c \<and> c \<le> 57)"

text \<open>
  pandas turns each directive into a regular expression, as \<^verbatim>\<open>strptime\<close> of Python does:
  \<^verbatim>\<open>%m\<close> is \<^verbatim>\<open>1[0-2]|0[1-9]|[1-9]\<close>, \<^verbatim>\<open>%d\<close> is \<^verbatim>\<open>3[0-1]|[1-2]\d|0[1-9]|[1-9]| [1-9]\<close>
  and \<^verbatim>\<open>%Y\<close> is \<^verbatim>\<open>\d\d\d\d\<close>. \<open>alternatives\<close> lists, in the order in which the regular
  expression tries them, the ways a directive matches at the start of a text: the number
  read and the rest of the text. The digits are those of ASCII, the only digits of
  cp1252.
\<close>

fun alternatives :: "directive \<Rightarrow> pystr \<Rightarrow> (nat \<times> pystr) list" where
  "alternatives Dir_m s =
     (case s of
        c1 # c2 # rest \<Rightarrow>
          (if c1 = 49 \<and> 48 \<le> c2 \<and> c2 \<le> 50 then [(10 + (c2 - 48), rest)] else [])
          @ (if c1 = 48 \<and> 49 \<le> c2 \<and> c2 \<le> 57 then [(c2 - 48, rest)] else [])
      | _ \<Rightarrow> [])
     @ (case s of
          c1 # rest \<Rightarrow> (if 49 \<le> c1 \<and> c1 \<le> 57 then [(c1 - 48, rest)] else [])
        | [] \<Rightarrow> [])"
| "alternatives Dir_d s =
     (case s of
        c1 # c2 # rest \<Rightarrow>
          (if c1 = 51 \<and> 48 \<le> c2 \<and> c2 \<le> 49 then [(30 + (c2 - 48), rest)] else [])
          @ (if 49 \<le> c1 \<and> c1 \<le> 50 \<and> is_digit c2
             then [(10 * (c1 - 48) + (c2 - 48), rest)] else [])
          @ (if c1 = 48 \<and> 49 \<le> c2 \<and> c2 \<le> 57 then [(c2 - 48, rest)] else [])
      | _ \<Rightarrow> [])
     @ (case s of
          c1 # rest \<Rightarrow> (if 49 \<le> c1 \<and> c1 \<le> 57 then [(c1 - 48, rest)] else [])
        | [] \<Rightarrow> [])
     @ (case s of
          c1 # c2 # rest \<Rightarrow>
            (if c1 = 32 \<and> 49 \<le> c2 \<and> c2 \<le> 57 then [(c2 - 48, rest)] else [])
        | _ \<Rightarrow> [])"
| "alternatives Dir_Y s =
     (case s of
        c1 # c2 # c3 # c4 # rest \<Rightarrow>
          (if is_digit c1 \<and> is_digit c2 \<and> is_digit c3 \<and> is_digit c4
           then [(1000 * (c1 - 48) + 100 * (c2 - 48) + 10 * (c3 - 48) + (c4 - 48), rest)]
           else [])
      | _ \<Rightarrow> [])"
| "alternatives Slash s =
     (case s of c # rest \<Rightarrow> (if c = 47 then [(0, rest)] else []) | [] \<Rightarrow> [])"

text \<open>
  All matches of a format at the start of a text, in the order of the backtracking
  search: the numbers read, one for each item of the format, and the text left over.
\<close>

fun matches :: "directive list \<Rightarrow> pystr \<Rightarrow> (nat list \<times> pystr) list" where
  "matches [] s = [([], s)]"
| "matches (d # ds) s =
     concat (map (\<lambda>(v, rest). map (\<lambda>(vs, r). (v # vs, r)) (matches ds rest))
                 (alternatives d s))"

text \<open>The fields (year, month, day) named by the numbers read; they start at 1900, 1, 1.\<close>

fun fields :: "directive list \<Rightarrow> nat list \<Rightarrow> nat \<times> nat \<times> nat \<Rightarrow> nat \<times> nat \<times> nat" where
  "fields (Dir_m # ds) (v # vs) (y, m, d) = fields ds vs (y, v, d)"
| "fields (Dir_d # ds) (v # vs) (y, m, d) = fields ds vs (y, m, v)"
| "fields (Dir_Y # ds) (v # vs) (y, m, d) = fields ds vs (v, m, d)"
| "fields (Slash # ds) (v # vs) (y, m, d) = fields ds vs (y, m, d)"
| "fields ds vs (y, m, d) = (y, m, d)"

definition leap :: "nat \<Rightarrow> bool" where
  "leap y = (y mod 4 = 0 \<and> (y mod 100 \<noteq> 0 \<or> y mod 400 = 0))"

definition days_in_month :: "nat \<Rightarrow> nat \<Rightarrow> nat" where
  "days_in_month y m =
     (if m = 2 then (if leap y then 29 else 28)
      else if m = 4 \<or> m = 6 \<or> m = 9 \<or> m = 11 then 30 else 31)"

text \<open>
  Parsing one text under a format. The first match of the regular expression is taken;
  the text does not parse when there is no match, when text is left over after the
  match, or when the date does not exist in the calendar. A date has midnight as its time.
  The range of the timestamp type is not part of the model.
\<close>

definition strptime :: "directive list \<Rightarrow> pystr \<Rightarrow> timestamp option" where
  "strptime fmt s =
     (case matches fmt s of
        [] \<Rightarrow> None
      | (vs, rest) # _ \<Rightarrow>
          (if rest \<noteq> [] then None
           else (case fields fmt vs (1900, 1, 1) of
                   (y, m, d) \<Rightarrow>
                     (if 1 \<le> y \<and> d \<le> days_in_month y m
                      then Some \<lparr> year = y, month = m, day = d, nanos = 0 \<rparr>
                      else None))))"

subsection \<open>\<^verbatim>\<open>to_datetime\<close>\<close>

text \<open>
  Before it tries the format, pandas looks at the text itself: the empty text and the
  spellings of NaT and NaN are the null date, and the words \<^verbatim>\<open>now\<close> and \<^verbatim>\<open>today\<close> are the
  current time. The clock is read once for each such cell; \<open>clock i\<close> is the time read
  while cell number \<open>i\<close> is converted.
\<close>

definition nat_strings :: "pystr list" where
  "nat_strings = [str ''NaT'', str ''nat'', str ''NAT'', str ''nan'', str ''NaN'', str ''NAN'']"

definition word_now :: pystr where
  "word_now = str ''now''"

definition word_today :: pystr where
  "word_today = str ''today''"

definition convert ::
  "(nat \<Rightarrow> timestamp) \<Rightarrow> directive list \<Rightarrow> nat \<Rightarrow> pystr \<Rightarrow> py_exception + timestamp option"
where
  "convert clock fmt i s =
     (if s = [] \<or> s \<in> set nat_strings then Inr None
      else if s = word_now \<or> s = word_today then Inr (Some (clock i))
      else (case strptime fmt s of
              Some t \<Rightarrow> Inr (Some t)
            | None \<Rightarrow> Inl ValueError))"

text \<open>
  \<^verbatim>\<open>pd.to_datetime(column, format=..., errors=...)\<close>, from cell number \<open>i\<close> on. A missing
  cell becomes the null date. With \<^verbatim>\<open>errors='raise'\<close> the first text that does not parse
  raises \<^verbatim>\<open>ValueError\<close>; with \<^verbatim>\<open>errors='coerce'\<close> it becomes the null date.
\<close>

datatype errors_mode = Raise | Coerce

fun to_datetime_from ::
  "(nat \<Rightarrow> timestamp) \<Rightarrow> directive list \<Rightarrow> errors_mode \<Rightarrow> nat \<Rightarrow> pystr option list
   \<Rightarrow> py_exception + timestamp option list"
where
  "to_datetime_from clock fmt errors i [] = Inr []"
| "to_datetime_from clock fmt errors i (None # cells) =
     map_sum id ((#) None) (to_datetime_from clock fmt errors (Suc i) cells)"
| "to_datetime_from clock fmt errors i (Some s # cells) =
     (case convert clock fmt i s of
        Inr t \<Rightarrow> map_sum id ((#) t) (to_datetime_from clock fmt errors (Suc i) cells)
      | Inl e \<Rightarrow>
          (case errors of
             Raise \<Rightarrow> Inl e
           | Coerce \<Rightarrow> map_sum id ((#) None) (to_datetime_from clock fmt errors (Suc i) cells)))"

definition to_datetime ::
  "(nat \<Rightarrow> timestamp) \<Rightarrow> directive list \<Rightarrow> errors_mode \<Rightarrow> pystr option list
   \<Rightarrow> py_exception + timestamp option list"
where
  "to_datetime clock fmt errors cells = to_datetime_from clock fmt errors 0 cells"

text \<open>
  What a cell holds after the conversion with \<^verbatim>\<open>errors='coerce'\<close>: the converted value,
  or the null date where the conversion of the cell raises.
\<close>

definition coerced :: "(nat \<Rightarrow> timestamp) \<Rightarrow> directive list \<Rightarrow> nat \<Rightarrow> pystr option \<Rightarrow> timestamp option"
where
  "coerced clock fmt i cell =
     (case cell of
        None \<Rightarrow> None
      | Some s \<Rightarrow> (case convert clock fmt i s of Inr t \<Rightarrow> t | Inl e \<Rightarrow> None))"

text \<open>\<^verbatim>\<open>data['Order Date'] = ...\<close>: the column is replaced, cell by cell.\<close>

definition set_Order_Date :: "'a row \<Rightarrow> 'b \<Rightarrow> 'b row" where
  "set_Order_Date r d =
     \<lparr> Region = Region r, Category = Category r, Order_Date = d,
       Sales = Sales r, Profit = Profit r, Discount = Discount r \<rparr>"

text \<open>
  The body of the \<^verbatim>\<open>try\<close>. \<open>read_csv\<close> is the environment: what
  \<^verbatim>\<open>pd.read_csv(file_path, encoding='cp1252')\<close> does for each path, raising or returning
  the frame of the file. A file that does not exist raises \<^verbatim>\<open>FileNotFoundError\<close>. The
  frames considered have the six columns of the row type.
\<close>

definition get_data_try ::
  "(nat \<Rightarrow> timestamp) \<Rightarrow> (pystr \<Rightarrow> py_exception + raw_table) \<Rightarrow> pystr \<Rightarrow> py_exception + table"
where
  "get_data_try clock read_csv file_path =
     (case read_csv file_path of
        Inl e \<Rightarrow> Inl e
      | Inr data \<Rightarrow>
          (case to_datetime clock format_mdY Coerce (map Order_Date data) of
             Inl e \<Rightarrow> Inl e
           | Inr dates \<Rightarrow> Inr (map2 set_Order_Date data dates)))"

text \<open>
  \<^verbatim>\<open>get_data\<close>: the \<^verbatim>\<open>try\<close> with its single handler. On \<^verbatim>\<open>FileNotFoundError\<close> two messages
  are shown and \<^verbatim>\<open>None\<close> is returned; any other exception leaves the function. The result
  is the messages shown and the returned value.
\<close>

definition get_data ::
  "(nat \<Rightarrow> timestamp) \<Rightarrow> (pystr \<Rightarrow> py_exception + raw_table) \<Rightarrow> pystr
   \<Rightarrow> py_exception + (ui_event list \<times> table option)"
where
  "get_data clock read_csv file_path =
     (case get_data_try clock read_csv file_path of
        Inr data \<Rightarrow> Inr ([], Some data)
      | Inl FileNotFoundError \<Rightarrow> Inr ([StError file_path, StInfo], None)
      | Inl e \<Rightarrow> Inl e)"

section \<open>The page (lines 28 to 88)\<close>

text \<open>
  The whole script, for the two values the user picks in the drop-downs. The result is
  the sequence of elements shown, or the exception that ends the script.
\<close>

definition results ::
  "(float64 list \<Rightarrow> float64) \<Rightarrow> pystr \<Rightarrow> pystr \<Rightarrow> table \<Rightarrow> ui_event list" where
  "results np_sum chosen_region chosen_category store_data =
     (let filtered = filtered_data chosen_region chosen_category store_data
      in [SidebarHeader,
          Selectbox (region_options store_data),
          Selectbox (category_options store_data),
          StHeader,
          StMarkdown chosen_region chosen_category,
          StFound (length filtered),
          StDataframe filtered]
         @ (case quick_summary np_sum filtered of
              Some s \<Rightarrow> [StSubheader, StMetrics s]
            | None \<Rightarrow> []))"

definition dashboard ::
  "(nat \<Rightarrow> timestamp) \<Rightarrow> (float64 list \<Rightarrow> float64) \<Rightarrow> (pystr \<Rightarrow> py_exception + raw_table)
   \<Rightarrow> pystr \<Rightarrow> pystr \<Rightarrow> py_exception + ui_event list"
where
  "dashboard clock np_sum read_csv chosen_region chosen_category =
     (case get_data clock read_csv (str ''Superstore.csv'') of
        Inl e \<Rightarrow> Inl e
      | Inr (shown, store_data) \<Rightarrow>
          Inr (shown @ [StTitle, StWrite]
               @ (case store_data of
                    Some data \<Rightarrow> results np_sum chosen_region chosen_category data
                  | None \<Rightarrow> [StWarning])))"

text \<open>Whether an element comes from the filter and summary engine.\<close>

fun engine_output :: "ui_event \<Rightarrow> bool" where
  "engine_output (StFound n) = True"
| "engine_output (StDataframe t) = True"
| "engine_output (StMetrics s) = True"
| "engine_output e = False"

section \<open>Example tables\<close>

definition West :: pystr where "West = str ''West''"
definition East :: pystr where "East = str ''East''"
definition North :: pystr where "North = str ''North''"
definition west_lower :: pystr where "west_lower = str ''west''"
definition Furniture :: pystr where "Furniture = str ''Furniture''"
definition Office_Supplies :: pystr where "Office_Supplies = str ''Office Supplies''"

text \<open>The float64 numbers nearest to 0.1, 0.2 and 0.05.\<close>

definition dbl_0_1 :: real where "dbl_0_1 = 3602879701896397 / 2 ^ 55"
definition dbl_0_2 :: real where "dbl_0_2 = 3602879701896397 / 2 ^ 54"
definition dbl_0_05 :: real where "dbl_0_05 = 3602879701896397 / 2 ^ 56"

text \<open>
  The float64 results of 0.1 + 0.2, of that sum divided by 3, and of the quotient times
  100: they print as 0.30000000000000004, 0.10000000000000002 and 10.000000000000002.
\<close>

definition dbl_0_3 :: real where "dbl_0_3 = 5404319552844596 / 2 ^ 54"
definition dbl_mean3 :: real where "dbl_mean3 = 7205759403792795 / 2 ^ 56"
definition dbl_10_up :: real where "dbl_10_up = 5629499534213121 / 2 ^ 49"

definition row_west :: "timestamp option row" where
  "row_west = \<lparr> Region = West, Category = Furniture, Order_Date = None,
                Sales = Finite 100, Profit = Finite 10, Discount = Finite dbl_0_1 \<rparr>"

definition row_east :: "timestamp option row" where
  "row_east = \<lparr> Region = East, Category = Furniture, Order_Date = None,
                Sales = Finite 200, Profit = Finite 40, Discount = Finite dbl_0_2 \<rparr>"

definition row_west_office :: "timestamp option row" where
  "row_west_office = \<lparr> Region = West, Category = Office_Supplies, Order_Date = None,
                       Sales = Finite 50, Profit = Finite (- 5), Discount = Finite 0 \<rparr>"

text \<open>The two rows of the scenario of the specification.\<close>

definition scenario :: table where
  "scenario = [row_west, row_east]"

definition three_rows :: table where
  "three_rows = [row_west, row_east, row_west_office]"

text \<open>
  A file of four rows as \<^verbatim>\<open>read_csv\<close> delivers it: a zero-padded date, a text that is no
  date under the format, a date without padding and the word \<^verbatim>\<open>now\<close>. Then two
  environments, one where \<^verbatim>\<open>Superstore.csv\<close> holds these rows and one where no file exists,
  and a clock.
\<close>

definition date_padded :: pystr where "date_padded = str ''01/15/2024''"
definition date_iso :: pystr where "date_iso = str ''2024-13-40''"
definition date_short :: pystr where "date_short = str ''11/8/2016''"

definition raw_good :: "pystr option row" where
  "raw_good = \<lparr> Region = West, Category = Furniture, Order_Date = Some date_padded,
                Sales = Finite 100, Profit = Finite 10, Discount = Finite dbl_0_1 \<rparr>"

definition raw_bad :: "pystr option row" where
  "raw_bad = \<lparr> Region = East, Category = Furniture, Order_Date = Some date_iso,
               Sales = Finite 200, Profit = Finite 40, Discount = Finite dbl_0_2 \<rparr>"

definition raw_short :: "pystr option row" where
  "raw_short = \<lparr> Region = West, Category = Office_Supplies, Order_Date = Some date_short,
                 Sales = Finite 50, Profit = Finite (- 5), Discount = Finite 0 \<rparr>"

definition raw_now :: "pystr option row" where
  "raw_now = \<lparr> Region = East, Category = Office_Supplies, Order_Date = Some word_now,
               Sales = Finite 1, Profit = Finite 1, Discount = Finite 0 \<rparr>"

definition raw_example :: raw_table where
  "raw_example = [raw_good, raw_bad, raw_short]"

definition read_csv_present :: "pystr \<Rightarrow> py_exception + raw_table" where
  "read_csv_present p =
     (if p = str ''Superstore.csv'' then Inr raw_example else Inl FileNotFoundError)"

definition read_csv_now :: "pystr \<Rightarrow> py_exception + raw_table" where
  "read_csv_now p =
     (if p = str ''Superstore.csv'' then Inr [raw_now] else Inl FileNotFoundError)"

definition read_csv_absent :: "pystr \<Rightarrow> py_exception + raw_table" where
  "read_csv_absent p = Inl FileNotFoundError"

definition noon :: timestamp where
  "noon = \<lparr> year = 2026, month = 11, day = 3, nanos = 43200000000000 \<rparr>"

definition clock_noon :: "nat \<Rightarrow> timestamp" where
  "clock_noon i = noon"

text \<open>A row whose region is itself called \<^verbatim>\<open>All\<close>.\<close>

definition row_named_all :: "timestamp option row" where
  "row_named_all = \<lparr> Region = All_sentinel, Category = Furniture, Order_Date = None,
                     Sales = Finite 1, Profit = Finite 1, Discount = Finite 0 \<rparr>"

section \<open>Properties of the rounding\<close>

declare normalise.simps [simp del]

lemma rhe_le: "y \<le> of_int n \<Longrightarrow> round_half_even y \<le> n"
  unfolding round_half_even_def Let_def
  by (auto simp: floor_le_iff le_floor_iff)

lemma rhe_ge: "of_int n \<le> y \<Longrightarrow> n \<le> round_half_even y"
proof -
  assume "of_int n \<le> y"
  then have "n \<le> \<lfloor>y\<rfloor>" by (simp add: le_floor_iff)
  moreover have "\<lfloor>y\<rfloor> \<le> round_half_even y"
    unfolding round_half_even_def Let_def by simp
  ultimately show ?thesis by simp
qed

lemma rhe_near: "\<bar>y - of_int m\<bar> < 1 / 2 \<Longrightarrow> round_half_even y = m"
proof -
  assume a: "\<bar>y - of_int m\<bar> < 1 / 2"
  show ?thesis
  proof (cases "of_int m \<le> y")
    case True
    with a have "\<lfloor>y\<rfloor> = m" by (intro floor_unique) auto
    with a True show ?thesis by (simp add: round_half_even_def Let_def)
  next
    case False
    with a have f: "\<lfloor>y\<rfloor> = m - 1" by (intro floor_unique) auto
    with a False show ?thesis by (simp add: round_half_even_def Let_def)
  qed
qed

lemma rhe_tie_up: "y = of_int m - 1 / 2 \<Longrightarrow> even m \<Longrightarrow> round_half_even y = m"
proof -
  assume a: "y = of_int m - 1 / 2" and e: "even m"
  have f: "\<lfloor>y\<rfloor> = m - 1" unfolding a by (intro floor_unique) auto
  from e have "odd (m - 1)" by simp
  with f a show ?thesis by (simp add: round_half_even_def Let_def)
qed

lemma rhe_tie_down: "y = of_int m + 1 / 2 \<Longrightarrow> even m \<Longrightarrow> round_half_even y = m"
proof -
  assume a: "y = of_int m + 1 / 2" and e: "even m"
  have f: "\<lfloor>y\<rfloor> = m" unfolding a by (intro floor_unique) auto
  with a e show ?thesis by (simp add: round_half_even_def Let_def)
qed

lemma rhe_nearest:
  "\<bar>y - of_int m\<bar> < 1 / 2 \<or> (\<bar>y - of_int m\<bar> = 1 / 2 \<and> even m) \<Longrightarrow> round_half_even y = m"
proof (elim disjE conjE)
  assume "\<bar>y - of_int m\<bar> < 1 / 2" then show ?thesis by (rule rhe_near)
next
  assume a: "\<bar>y - of_int m\<bar> = 1 / 2" and e: "even m"
  then consider "y = of_int m - 1 / 2" | "y = of_int m + 1 / 2"
    by (auto simp: abs_if split: if_splits)
  then show ?thesis using e by cases (auto intro: rhe_tie_up rhe_tie_down)
qed

text \<open>What the halving returns: the number of halvings and the bounds of the result.\<close>

lemma normalise_char:
  "normalise y j = (z, k) \<Longrightarrow>
     j \<le> k \<and> k \<le> max j 2045 \<and> z = y / 2 ^ (k - j) \<and> (k = j \<or> 2 ^ 52 \<le> z)"
proof (induction y j arbitrary: z k rule: normalise.induct)
  case (1 y j)
  show ?case
  proof (cases "2 ^ 53 \<le> y \<and> j < 2045")
    case True
    with "1.prems" have rec: "normalise (y / 2) (Suc j) = (z, k)"
      by (simp add: normalise.simps [of y j])
    from "1.IH" [OF True rec]
    have ih: "Suc j \<le> k" "k \<le> max (Suc j) 2045" "z = y / 2 / 2 ^ (k - Suc j)"
      "k = Suc j \<or> 2 ^ 52 \<le> z" by auto
    from ih(1) have e: "k - j = Suc (k - Suc j)" by simp
    have z: "z = y / 2 ^ (k - j)" using ih(3) by (simp add: e)
    have lo: "2 ^ 52 \<le> z"
    proof (cases "k = Suc j")
      case True
      with ih(3) have "z = y / 2" by simp
      with \<open>2 ^ 53 \<le> y \<and> j < 2045\<close> show ?thesis by simp
    next
      case False with ih(4) show ?thesis by simp
    qed
    from ih True z lo show ?thesis by auto
  next
    case False
    have "normalise y j = (y, j)"
      using False by (subst normalise.simps) auto
    with "1.prems" have "z = y" "k = j" by simp_all
    then show ?thesis by auto
  qed
qed

lemma normalise_eval:
  "j + d \<le> 2045 \<Longrightarrow> d = 0 \<or> 2 ^ 52 * 2 ^ d \<le> y \<Longrightarrow> y < 2 ^ 53 * 2 ^ d
   \<Longrightarrow> normalise y j = (y / 2 ^ d, j + d)"
proof (induction d arbitrary: y j)
  case 0
  then have "\<not> 2 ^ 53 \<le> y" by simp
  then have "normalise y j = (y, j)"
    by (subst normalise.simps) (simp only: simp_thms if_False)
  then show ?case by simp
next
  case (Suc d)
  from Suc.prems(2) have lo: "(2::real) ^ 52 * 2 ^ Suc d \<le> y" by simp
  from lo have lo': "2 ^ 53 * (2::real) ^ d \<le> y" by simp
  have "(1::real) \<le> 2 ^ d" by simp
  then have "(2::real) ^ 53 \<le> 2 ^ 53 * 2 ^ d" by simp
  with lo' have y53: "2 ^ 53 \<le> y" by linarith
  from Suc.prems(1) have j: "j < 2045" by simp
  have step: "normalise y j = normalise (y / 2) (Suc j)"
    using y53 j by (subst normalise.simps) simp
  have a: "Suc j + d \<le> 2045" using Suc.prems(1) by simp
  have b: "d = 0 \<or> 2 ^ 52 * 2 ^ d \<le> y / 2" using lo by simp
  have c: "y / 2 < 2 ^ 53 * 2 ^ d" using Suc.prems(3) by simp
  from Suc.IH [OF a b c] step show ?case by simp
qed

text \<open>
  Rounding never crosses a natural number below \<open>2 ^ 53\<close>: those numbers are float64
  numbers themselves.
\<close>

lemma round_pos_between:
  assumes "real L \<le> x" and "x \<le> real N" and "N < 2 ^ 53"
  shows "\<exists>r. round_pos x = Finite r \<and> real L \<le> r \<and> r \<le> real N"
proof -
  define P :: real where "P = 2 ^ 1074"
  have Ppos: "0 < P" by (simp add: P_def)
  have x0: "0 \<le> x" using assms(1) by (meson of_nat_0_le_iff order_trans)
  obtain z k where n: "normalise (x * P) 0 = (z, k)" by (cases "normalise (x * P) 0")
  from normalise_char [OF n]
  have k: "k \<le> 2045" and z: "z = x * P / 2 ^ k" and lo: "k = 0 \<or> 2 ^ 52 \<le> z"
    by auto
  have N53: "real N < 2 ^ 53"
    using assms(3) by (metis of_nat_less_iff of_nat_numeral of_nat_power)
  have kle: "k \<le> 1074"
  proof (rule ccontr)
    assume "\<not> k \<le> 1074"
    then have k1: "1075 \<le> k" by simp
    with lo have z52: "2 ^ 52 \<le> z" by auto
    have kpos: "(0::real) < 2 ^ k" by simp
    from z52 have a: "(2::real) ^ 52 * 2 ^ k \<le> x * P"
      unfolding z using kpos by (simp only: pos_le_divide_eq)
    have "(2::real) ^ 1075 \<le> 2 ^ k" using k1 by (intro power_increasing) auto
    then have b: "(2::real) ^ 52 * 2 ^ 1075 \<le> 2 ^ 52 * 2 ^ k"
      by (intro mult_left_mono) auto
    have c: "(2::real) ^ 52 * 2 ^ 1075 = 2 ^ 53 * P"
      unfolding P_def by (simp only: power_add [symmetric]) simp
    from a b c have "2 ^ 53 * P \<le> x * P" by linarith
    with Ppos have "(2::real) ^ 53 \<le> x" by (simp only: mult_le_cancel_right_pos)
    with N53 assms(2) show False by linarith
  qed
  define Q :: real where "Q = 2 ^ (1074 - k)"
  have PQ: "P = Q * 2 ^ k"
    unfolding P_def Q_def using kle by (simp only: power_add [symmetric]) simp
  have Qpos: "0 < Q" by (simp add: Q_def)
  define M :: int where "M = int N * 2 ^ (1074 - k)"
  define Lo :: int where "Lo = int L * 2 ^ (1074 - k)"
  have MQ: "real_of_int M = real N * Q" by (simp add: M_def Q_def)
  have LoQ: "real_of_int Lo = real L * Q" by (simp add: Lo_def Q_def)
  have zQ: "z = x * Q" unfolding z PQ by simp
  have zM: "z \<le> of_int M"
    unfolding zQ MQ using assms(2) Qpos by (simp only: mult_le_cancel_right_pos)
  have zLo: "of_int Lo \<le> z"
    unfolding zQ LoQ using assms(1) Qpos by (simp only: mult_le_cancel_right_pos)
  let ?m = "round_half_even z"
  have m_le: "?m \<le> M" using zM by (rule rhe_le)
  have m_ge: "Lo \<le> ?m" using zLo by (rule rhe_ge)
  have mQ: "real_of_int ?m \<le> real N * Q"
    using m_le MQ by (metis of_int_le_iff)
  have mLoQ: "real L * Q \<le> real_of_int ?m"
    using m_ge LoQ by (metis of_int_le_iff)
  have mP: "real_of_int ?m * 2 ^ k \<le> real N * P"
  proof -
    have "real_of_int ?m * 2 ^ k \<le> (real N * Q) * 2 ^ k"
      using mQ by (intro mult_right_mono) auto
    then show ?thesis by (simp only: PQ mult.assoc)
  qed
  have mLoP: "real L * P \<le> real_of_int ?m * 2 ^ k"
  proof -
    have "(real L * Q) * 2 ^ k \<le> real_of_int ?m * 2 ^ k"
      using mLoQ by (intro mult_right_mono) auto
    then show ?thesis by (simp only: PQ mult.assoc)
  qed
  have val: "real_of_int ?m * 2 ^ k / P \<le> real N"
    using mP Ppos by (simp only: pos_divide_le_eq)
  have valL: "real L \<le> real_of_int ?m * 2 ^ k / P"
    using mLoP Ppos by (simp only: pos_le_divide_eq)
  have R: "(2::real) ^ 2098 = 2 ^ 1024 * P"
    unfolding P_def by (simp only: power_add [symmetric]) simp
  have nov: "\<not> 2 ^ 2098 \<le> real_of_int ?m * 2 ^ k"
  proof -
    have "real N * P < 2 ^ 53 * P" using N53 Ppos by (simp only: mult_less_cancel_right_pos)
    also have "\<dots> \<le> 2 ^ 1024 * P" using Ppos by (intro mult_right_mono power_increasing) auto
    finally show ?thesis using mP R by linarith
  qed
  have "round_pos x = Finite (real_of_int ?m * 2 ^ k / P)"
    using n nov unfolding round_pos_def P_def by (simp only: Let_def prod.case if_False)
  then show ?thesis using val valL by blast
qed

lemma round64_between:
  assumes "real L \<le> x" and "x \<le> real N" and "N < 2 ^ 53"
  shows "\<exists>r. round64 x = Finite r \<and> real L \<le> r \<and> r \<le> real N"
proof -
  have "0 \<le> x" using assms(1) by (meson of_nat_0_le_iff order_trans)
  then have "round64 x = round_pos x" by (simp add: round64_def)
  with round_pos_between [OF assms] show ?thesis by simp
qed

lemma round64_nat: "n < 2 ^ 53 \<Longrightarrow> round64 (real n) = Finite (real n)"
  using round64_between [of n "real n" n] by auto

text \<open>The value of a rounding, from the spacing \<open>1 / 2 ^ v\<close> and the integer \<open>m\<close> it rounds to.\<close>

lemma round_pos_eval:
  assumes "1 \<le> v" and "v \<le> 1074" and "v = 1074 \<or> 2 ^ 52 \<le> x * 2 ^ v" and "x * 2 ^ v < 2 ^ 53"
    and "0 \<le> x"
  shows "round_pos x = Finite (of_int (round_half_even (x * 2 ^ v)) / 2 ^ v)"
proof -
  define d where "d = 1074 - v"
  define D :: real where "D = 2 ^ d"
  define V :: real where "V = 2 ^ v"
  have Dpos: "0 < D" and Vpos: "0 < V" by (simp_all add: D_def V_def)
  have P: "(2::real) ^ 1074 = V * D"
    unfolding V_def D_def d_def using assms(2) by (simp only: power_add [symmetric]) simp
  have X: "x * 2 ^ 1074 = (x * V) * D" by (simp only: P mult.assoc)
  have d0: "d = 0 \<longleftrightarrow> v = 1074" using assms(2) by (auto simp: d_def)
  have a: "0 + d \<le> 2045" by (simp add: d_def)
  have b: "d = 0 \<or> 2 ^ 52 * 2 ^ d \<le> x * 2 ^ 1074"
  proof (cases "v = 1074")
    case True then show ?thesis using d0 by simp
  next
    case False
    with assms(3) have "2 ^ 52 \<le> x * V" by (simp add: V_def)
    then have "2 ^ 52 * D \<le> (x * V) * D" using Dpos by (simp only: mult_le_cancel_right_pos)
    then show ?thesis by (simp only: X D_def) simp
  qed
  have c: "x * 2 ^ 1074 < 2 ^ 53 * 2 ^ d"
  proof -
    from assms(4) have "x * V < 2 ^ 53" by (simp add: V_def)
    then have "(x * V) * D < 2 ^ 53 * D" using Dpos by (simp only: mult_less_cancel_right_pos)
    then show ?thesis by (simp only: X D_def)
  qed
  have n: "normalise (x * 2 ^ 1074) 0 = (x * V, d)"
  proof -
    have "x * 2 ^ 1074 / 2 ^ d = x * V" using Dpos by (simp only: X D_def [symmetric]) simp
    with normalise_eval [OF a b c] show ?thesis by simp
  qed
  let ?m = "round_half_even (x * V)"
  have mle: "?m \<le> 2 ^ 53"
  proof -
    have "x * V \<le> of_int (2 ^ 53)" using assms(4) by (simp add: V_def)
    then show ?thesis by (rule rhe_le)
  qed
  have nov: "\<not> 2 ^ 2098 \<le> real_of_int ?m * 2 ^ d"
  proof -
    have "real_of_int ?m \<le> 2 ^ 53" using mle by (metis of_int_le_iff of_int_numeral of_int_power)
    then have "real_of_int ?m * D \<le> 2 ^ 53 * D" using Dpos by (simp only: mult_le_cancel_right_pos)
    also have "D \<le> 2 ^ 1074" unfolding D_def d_def by (intro power_increasing) auto
    then have "2 ^ 53 * D \<le> 2 ^ 53 * (2::real) ^ 1074" by (intro mult_left_mono) auto
    also have "\<dots> = 2 ^ 1127" by (simp only: power_add [symmetric]) simp
    also have "\<dots> < (2::real) ^ 2098" by (intro power_strict_increasing) auto
    finally show ?thesis by (simp add: D_def)
  qed
  have val: "real_of_int ?m * 2 ^ d / 2 ^ 1074 = real_of_int ?m / V"
    using Dpos Vpos by (simp only: P D_def [symmetric]) simp
  show ?thesis
    using n nov val unfolding round_pos_def by (simp only: Let_def prod.case if_False V_def)
qed

lemma round64_value:
  assumes "1 \<le> v" and "v \<le> 1074" and "v = 1074 \<or> 2 ^ 52 \<le> x * 2 ^ v" and "x * 2 ^ v < 2 ^ 53"
    and "0 \<le> x"
    and "\<bar>x * 2 ^ v - of_int m\<bar> < 1 / 2 \<or> (\<bar>x * 2 ^ v - of_int m\<bar> = 1 / 2 \<and> even m)"
  shows "round64 x = Finite (of_int m / 2 ^ v)"
  using round_pos_eval [OF assms(1-5)] rhe_nearest [OF assms(6)] assms(5)
  by (simp add: round64_def)

section \<open>Properties of the sums\<close>

lemma sequential_sum_snoc: "sequential_sum (xs @ [x]) = fadd (sequential_sum xs) x"
  by (simp add: sequential_sum_def)

lemma sequential_sum_is_float_sum: "is_float_sum xs (sequential_sum xs)"
proof (induction xs rule: rev_induct)
  case Nil
  show ?case by (simp add: sequential_sum_def is_float_sum.zero)
next
  case (snoc x xs)
  from is_float_sum.add [OF snoc is_float_sum.one [of x]]
  show ?case by (simp add: sequential_sum_snoc)
qed

lemma float_summation_sequential: "float_summation sequential_sum"
  by (simp add: float_summation_def sequential_sum_is_float_sum)

text \<open>A sum of cells between 0 and 1 lies between 0 and the number of cells.\<close>

lemma float_sum_unit_bound:
  assumes "is_float_sum xs s"
    and "\<forall>x \<in> set xs. \<exists>v. x = Finite v \<and> 0 \<le> v \<and> v \<le> 1"
    and "length xs < 2 ^ 53"
  shows "\<exists>v. s = Finite v \<and> 0 \<le> v \<and> v \<le> real (length xs)"
  using assms
proof (induction rule: is_float_sum.induct)
  case zero
  show ?case by simp
next
  case (one x)
  then show ?case by auto
next
  case (add xs a ys b)
  from add.prems have "\<forall>x \<in> set xs. \<exists>v. x = Finite v \<and> 0 \<le> v \<and> v \<le> 1" "length xs < 2 ^ 53"
    by auto
  from add.IH(1) [OF this] obtain va where a: "a = Finite va" "0 \<le> va" "va \<le> real (length xs)"
    by blast
  from add.prems have "\<forall>x \<in> set ys. \<exists>v. x = Finite v \<and> 0 \<le> v \<and> v \<le> 1" "length ys < 2 ^ 53"
    by auto
  from add.IH(2) [OF this] obtain vb where b: "b = Finite vb" "0 \<le> vb" "vb \<le> real (length ys)"
    by blast
  have lo: "real (0::nat) \<le> va + vb" using a b by simp
  have hi: "va + vb \<le> real (length (xs @ ys))" using a b by simp
  from round64_between [OF lo hi] add.prems(2)
  obtain r where "round64 (va + vb) = Finite r" "0 \<le> r" "r \<le> real (length (xs @ ys))"
    by auto
  with a b show ?case by simp
next
  case (reorder xs a ys)
  from reorder.hyps(2) have s: "set ys = set xs" and l: "length ys = length xs"
    by (auto dest: mset_eq_setD mset_eq_length)
  from reorder.IH reorder.prems show ?case by (simp add: s l)
qed

text \<open>The sum of a single cell that is a float64 number is that cell.\<close>

lemma float_sum_small:
  assumes "is_float_sum xs s" and "round64 0 = Finite 0"
  shows "(xs = [] \<longrightarrow> s = Finite 0) \<and> (\<forall>x. xs = [Finite x] \<longrightarrow> round64 x = Finite x \<longrightarrow> s = Finite x)"
  using assms(1)
proof (induction rule: is_float_sum.induct)
  case zero
  show ?case by simp
next
  case (one x)
  show ?case by simp
next
  case (add xs a ys b)
  show ?case
  proof (intro conjI impI allI)
    assume "xs @ ys = []"
    with add.IH have "a = Finite 0" "b = Finite 0" by auto
    then show "fadd a b = Finite 0" using assms(2) by simp
  next
    fix x assume e: "xs @ ys = [Finite x]" and r: "round64 x = Finite x"
    then consider "xs = [Finite x] \<and> ys = []" | "xs = [] \<and> ys = [Finite x]"
      by (auto simp: append_eq_Cons_conv)
    then show "fadd a b = Finite x"
    proof cases
      case 1
      with add.IH r have "a = Finite x" "b = Finite 0" by auto
      then show ?thesis using r by simp
    next
      case 2
      with add.IH r have "a = Finite 0" "b = Finite x" by auto
      then show ?thesis using r by simp
    qed
  qed
next
  case (reorder xs a ys)
  from reorder.hyps(2) have "ys = [] \<longleftrightarrow> xs = []" by (metis mset_zero_iff)
  moreover from reorder.hyps(2) have "\<And>x. ys = [x] \<longleftrightarrow> xs = [x]"
    by (metis mset.simps(1) mset.simps(2) mset_single_iff_right mset_single_iff)
  ultimately show ?case using reorder.IH by auto
qed

section \<open>Values of the examples\<close>

lemmas string_defs =
  All_sentinel_def West_def East_def North_def west_lower_def Furniture_def Office_Supplies_def

lemmas example_defs =
  row_west_def row_east_def row_west_office_def scenario_def three_rows_def string_defs

lemma round64_naturals:
  "round64 0 = Finite 0" "round64 1 = Finite 1" "round64 2 = Finite 2" "round64 3 = Finite 3"
  "round64 5 = Finite 5" "round64 10 = Finite 10" "round64 45 = Finite 45"
  "round64 50 = Finite 50" "round64 100 = Finite 100" "round64 150 = Finite 150"
  "round64 300 = Finite 300" "round64 350 = Finite 350"
  using round64_nat [of 0] round64_nat [of 1] round64_nat [of 2] round64_nat [of 3]
    round64_nat [of 5] round64_nat [of 10] round64_nat [of 45] round64_nat [of 50]
    round64_nat [of 100] round64_nat [of 150] round64_nat [of 300] round64_nat [of 350]
  by simp_all

lemma round64_dbl_0_1: "round64 dbl_0_1 = Finite dbl_0_1"
proof -
  have "round64 dbl_0_1 = Finite (of_int 7205759403792794 / 2 ^ 56)"
    by (rule round64_value) (simp_all add: dbl_0_1_def)
  then show ?thesis by (simp add: dbl_0_1_def)
qed

lemma round64_dbl_0_1_times_100: "round64 (dbl_0_1 * 100) = Finite 10"
proof -
  have "round64 (dbl_0_1 * 100) = Finite (of_int 5629499534213120 / 2 ^ 49)"
    by (rule round64_value) (simp_all add: dbl_0_1_def)
  then show ?thesis by simp
qed

lemma round64_half_dbl_0_1: "round64 (dbl_0_1 / 2) = Finite dbl_0_05"
proof -
  have "round64 (dbl_0_1 / 2) = Finite (of_int 7205759403792794 / 2 ^ 57)"
    by (rule round64_value) (simp_all add: dbl_0_1_def)
  then show ?thesis by (simp add: dbl_0_05_def)
qed

lemma round64_dbl_0_05_times_100: "round64 (dbl_0_05 * 100) = Finite 5"
proof -
  have "round64 (dbl_0_05 * 100) = Finite (of_int 5629499534213120 / 2 ^ 50)"
    by (rule round64_value) (simp_all add: dbl_0_05_def)
  then show ?thesis by simp
qed

text \<open>0.1 + 0.2 lies halfway between two float64 numbers and goes to the even one.\<close>

lemma round64_dbl_0_1_plus_0_2: "round64 (dbl_0_1 + dbl_0_2) = Finite dbl_0_3"
proof -
  have "round64 (dbl_0_1 + dbl_0_2) = Finite (of_int 5404319552844596 / 2 ^ 54)"
    by (rule round64_value) (simp_all add: dbl_0_1_def dbl_0_2_def)
  then show ?thesis by (simp add: dbl_0_3_def)
qed

lemma round64_dbl_0_3: "round64 dbl_0_3 = Finite dbl_0_3"
proof -
  have "round64 dbl_0_3 = Finite (of_int 5404319552844596 / 2 ^ 54)"
    by (rule round64_value) (simp_all add: dbl_0_3_def)
  then show ?thesis by (simp add: dbl_0_3_def)
qed

lemma round64_dbl_0_3_by_3: "round64 (dbl_0_3 / 3) = Finite dbl_mean3"
proof -
  have "round64 (dbl_0_3 / 3) = Finite (of_int 7205759403792795 / 2 ^ 56)"
    by (rule round64_value) (simp_all add: dbl_0_3_def)
  then show ?thesis by (simp add: dbl_mean3_def)
qed

lemma round64_dbl_mean3_times_100: "round64 (dbl_mean3 * 100) = Finite dbl_10_up"
proof -
  have "round64 (dbl_mean3 * 100) = Finite (of_int 5629499534213121 / 2 ^ 49)"
    by (rule round64_value) (simp_all add: dbl_mean3_def)
  then show ?thesis by (simp add: dbl_10_up_def)
qed

lemmas round64_values =
  round64_naturals round64_dbl_0_1 round64_dbl_0_1_times_100 round64_half_dbl_0_1
  round64_dbl_0_05_times_100 round64_dbl_0_1_plus_0_2 round64_dbl_0_3 round64_dbl_0_3_by_3
  round64_dbl_mean3_times_100

lemmas reduction_defs =
  quick_summary_def series_sum_def series_mean_def fillna0_def sequential_sum_def Let_def

lemma summary_three_rows:
  "quick_summary sequential_sum three_rows =
     Some \<lparr> sum_sales = Finite 350, sum_profit = Finite 45, avg_discount_perc = Finite dbl_10_up \<rparr>"
  by (simp add: reduction_defs three_rows_def row_west_def row_east_def row_west_office_def
      round64_values)

lemma summary_two_west:
  "quick_summary sequential_sum [row_west, row_west_office] =
     Some \<lparr> sum_sales = Finite 150, sum_profit = Finite 5, avg_discount_perc = Finite 5 \<rparr>"
  by (simp add: reduction_defs row_west_def row_west_office_def round64_values)

section \<open>Properties of the engine\<close>

lemma filtered_data_filter:
  "filtered_data r c T =
     filter (\<lambda>x. (r \<noteq> All_sentinel \<longrightarrow> Region x = r) \<and> (c \<noteq> All_sentinel \<longrightarrow> Category x = c)) T"
  by (simp add: filtered_data_def by_category_def by_region_def copy_def)

lemma fst_apply_selection: "fst (apply_selection np_sum T r c) = filtered_data r c T"
  by (simp add: apply_selection_def Let_def)

lemma snd_apply_selection:
  "snd (apply_selection np_sum T r c) = quick_summary np_sum (filtered_data r c T)"
  by (simp add: apply_selection_def Let_def)

lemma filtered_scenario_west: "filtered_data West All_sentinel scenario = [row_west]"
  by (simp add: filtered_data_filter example_defs)

lemma filtered_three_west:
  "filtered_data West All_sentinel three_rows = [row_west, row_west_office]"
  by (simp add: filtered_data_filter example_defs)

lemma filtered_three_west_furniture:
  "filtered_data West Furniture three_rows = [row_west]"
  by (simp add: filtered_data_filter example_defs)

lemma filtered_three_north: "filtered_data North All_sentinel three_rows = []"
  by (simp add: filtered_data_filter example_defs)

lemma filtered_three_west_lower: "filtered_data west_lower All_sentinel three_rows = []"
  by (simp add: filtered_data_filter example_defs)

subsection \<open>The filtered subset\<close>

text \<open>
  C1. For every table and every selection, the subset returned by the engine consists
  of exactly the rows that satisfy every predicate whose selected value is not the sentinel
  (the attribute equals the selected value, as strings, so case matters), and the subset
  is a sub-sequence of the table: the kept rows stay in their original order.
\<close>

theorem C1_subset_exact:
  "fst (apply_selection np_sum T r c) =
     filter (\<lambda>x. (r \<noteq> All_sentinel \<longrightarrow> Region x = r) \<and> (c \<noteq> All_sentinel \<longrightarrow> Category x = c)) T
   \<and> subseq (fst (apply_selection np_sum T r c)) T"
  by (simp add: fst_apply_selection filtered_data_filter)

text \<open>
  At the three example rows, Region \<^verbatim>\<open>West\<close> and Category \<^verbatim>\<open>Furniture\<close> keep the first row
  only; the lower-case \<^verbatim>\<open>west\<close> keeps nothing.
\<close>

theorem C1_subset_exact_witness:
  "West \<noteq> All_sentinel \<and> Furniture \<noteq> All_sentinel
   \<and> fst (apply_selection sequential_sum three_rows West Furniture) = [row_west]
   \<and> subseq [row_west] three_rows
   \<and> fst (apply_selection sequential_sum three_rows west_lower All_sentinel) = []"
  using C1_subset_exact [of sequential_sum three_rows West Furniture]
        C1_subset_exact [of sequential_sum three_rows west_lower All_sentinel]
  by (simp add: example_defs)

subsection \<open>The summary\<close>

lemma quick_summary_None: "quick_summary np_sum S = None \<longleftrightarrow> S = []"
  by (simp add: quick_summary_def)

lemma fillna0_id: "NaN \<notin> set xs \<Longrightarrow> fillna0 xs = xs"
  by (induction xs) (auto simp: fillna0_def)

lemma series_mean_no_NaN:
  "NaN \<notin> set xs \<Longrightarrow> xs \<noteq> [] \<Longrightarrow>
     series_mean np_sum xs = fdiv (series_sum np_sum xs) (round64 (real (length xs)))"
proof -
  assume n: "NaN \<notin> set xs" and ne: "xs \<noteq> []"
  from n have "filter (\<lambda>x. x \<noteq> NaN) xs = xs" by (induction xs) auto
  with ne show ?thesis by (simp add: series_mean_def series_sum_def Let_def)
qed

lemma series_sum_single:
  assumes "float_summation np_sum" and "round64 x = Finite x"
  shows "series_sum np_sum [Finite x] = Finite x"
proof -
  from assms(1) have "is_float_sum [Finite x] (np_sum [Finite x])"
    by (simp add: float_summation_def)
  from float_sum_small [OF this round64_naturals(1)] assms(2)
  show ?thesis by (simp add: series_sum_def fillna0_def)
qed

lemma summary_row_west:
  assumes "float_summation np_sum"
  shows "quick_summary np_sum [row_west] =
     Some \<lparr> sum_sales = Finite 100, sum_profit = Finite 10, avg_discount_perc = Finite 10 \<rparr>"
proof -
  have s: "series_sum np_sum [Finite 100] = Finite 100"
    by (rule series_sum_single [OF assms]) (rule round64_naturals)
  have p: "series_sum np_sum [Finite 10] = Finite 10"
    by (rule series_sum_single [OF assms]) (rule round64_naturals)
  have d: "series_sum np_sum [Finite dbl_0_1] = Finite dbl_0_1"
    by (rule series_sum_single [OF assms]) (rule round64_dbl_0_1)
  have m: "series_mean np_sum [Finite dbl_0_1] = Finite dbl_0_1"
    using series_mean_no_NaN [of "[Finite dbl_0_1]" np_sum] d
    by (simp add: round64_values)
  show ?thesis
    by (simp add: quick_summary_def row_west_def s p m round64_values)
qed

text \<open>
  C2. The summary is absent exactly when the filtered subset is empty. For a non-empty
  subset it holds the sum of the subset's Sales, the sum of its Profit, and the mean of its
  Discount times 100, where the sum of a column is a float64 sum of its cells (missing
  cells counting as zero) and, for a column without missing cells, the mean is that sum
  divided by the number of cells. On the two rows of the scenario, Region \<^verbatim>\<open>West\<close> and
  Category \<^verbatim>\<open>All\<close> give the first row alone, with totals 100 and 10 and an average
  discount of 10.
\<close>

theorem C2_summary:
  assumes "float_summation np_sum"
  shows "(snd (apply_selection np_sum T r c) = None \<longleftrightarrow> fst (apply_selection np_sum T r c) = [])
   \<and> (fst (apply_selection np_sum T r c) \<noteq> [] \<longrightarrow>
        snd (apply_selection np_sum T r c) =
          Some \<lparr> sum_sales = series_sum np_sum (map Sales (fst (apply_selection np_sum T r c))),
                 sum_profit = series_sum np_sum (map Profit (fst (apply_selection np_sum T r c))),
                 avg_discount_perc =
                   fmul (series_mean np_sum (map Discount (fst (apply_selection np_sum T r c))))
                        (Finite 100) \<rparr>)
   \<and> is_float_sum (fillna0 xs) (series_sum np_sum xs)
   \<and> (NaN \<notin> set xs \<longrightarrow> fillna0 xs = xs)
   \<and> (NaN \<notin> set xs \<longrightarrow> xs \<noteq> [] \<longrightarrow>
        series_mean np_sum xs = fdiv (series_sum np_sum xs) (round64 (real (length xs))))
   \<and> apply_selection np_sum scenario West All_sentinel =
       ([row_west],
        Some \<lparr> sum_sales = Finite 100, sum_profit = Finite 10, avg_discount_perc = Finite 10 \<rparr>)"
proof (intro conjI)
  show "snd (apply_selection np_sum T r c) = None \<longleftrightarrow> fst (apply_selection np_sum T r c) = []"
    by (simp add: fst_apply_selection snd_apply_selection quick_summary_None)
  show "fst (apply_selection np_sum T r c) \<noteq> [] \<longrightarrow>
        snd (apply_selection np_sum T r c) =
          Some \<lparr> sum_sales = series_sum np_sum (map Sales (fst (apply_selection np_sum T r c))),
                 sum_profit = series_sum np_sum (map Profit (fst (apply_selection np_sum T r c))),
                 avg_discount_perc =
                   fmul (series_mean np_sum (map Discount (fst (apply_selection np_sum T r c))))
                        (Finite 100) \<rparr>"
    by (simp add: fst_apply_selection snd_apply_selection quick_summary_def)
  show "is_float_sum (fillna0 xs) (series_sum np_sum xs)"
    using assms by (simp add: float_summation_def series_sum_def)
  show "NaN \<notin> set xs \<longrightarrow> fillna0 xs = xs"
    by (simp add: fillna0_id)
  show "NaN \<notin> set xs \<longrightarrow> xs \<noteq> [] \<longrightarrow>
        series_mean np_sum xs = fdiv (series_sum np_sum xs) (round64 (real (length xs)))"
    by (simp add: series_mean_no_NaN)
  show "apply_selection np_sum scenario West All_sentinel =
       ([row_west],
        Some \<lparr> sum_sales = Finite 100, sum_profit = Finite 10, avg_discount_perc = Finite 10 \<rparr>)"
    using summary_row_west [OF assms]
    by (simp add: apply_selection_def Let_def filtered_scenario_west)
qed

text \<open>
  With the cells added one after the other: on the three example rows, Region \<^verbatim>\<open>West\<close>
  keeps two rows and has a summary; Region \<^verbatim>\<open>North\<close> keeps none and has no summary.
\<close>

theorem C2_summary_witness:
  "float_summation sequential_sum
   \<and> fst (apply_selection sequential_sum three_rows West All_sentinel) = [row_west, row_west_office]
   \<and> snd (apply_selection sequential_sum three_rows West All_sentinel) =
       Some \<lparr> sum_sales = Finite 150, sum_profit = Finite 5, avg_discount_perc = Finite 5 \<rparr>
   \<and> fst (apply_selection sequential_sum three_rows North All_sentinel) = []
   \<and> snd (apply_selection sequential_sum three_rows North All_sentinel) = None
   \<and> is_float_sum [Finite 100, Finite 50] (Finite 150)"
proof -
  have w: "fst (apply_selection sequential_sum three_rows West All_sentinel)
             = [row_west, row_west_office]"
    by (simp add: fst_apply_selection filtered_three_west)
  have n: "fst (apply_selection sequential_sum three_rows North All_sentinel) = []"
    by (simp add: fst_apply_selection filtered_three_north)
  have v: "series_sum sequential_sum [Finite 100, Finite 50] = Finite 150"
    by (simp add: reduction_defs round64_values)
  note t = C2_summary [OF float_summation_sequential, of three_rows West All_sentinel
             "[Finite 100, Finite 50]"]
       and u = C2_summary [OF float_summation_sequential, of three_rows North All_sentinel]
  from t have s: "is_float_sum (fillna0 [Finite 100, Finite 50])
                    (series_sum sequential_sum [Finite 100, Finite 50])"
    by blast
  from t w have "snd (apply_selection sequential_sum three_rows West All_sentinel) =
       Some \<lparr> sum_sales = series_sum sequential_sum (map Sales [row_west, row_west_office]),
              sum_profit = series_sum sequential_sum (map Profit [row_west, row_west_office]),
              avg_discount_perc =
                fmul (series_mean sequential_sum (map Discount [row_west, row_west_office]))
                     (Finite 100) \<rparr>"
    by simp
  then have sw: "snd (apply_selection sequential_sum three_rows West All_sentinel) =
       Some \<lparr> sum_sales = Finite 150, sum_profit = Finite 5, avg_discount_perc = Finite 5 \<rparr>"
    using summary_two_west by (simp add: quick_summary_def)
  from u n have sn: "snd (apply_selection sequential_sum three_rows North All_sentinel) = None"
    by simp
  from s v have "is_float_sum [Finite 100, Finite 50] (Finite 150)"
    by (simp add: fillna0_def)
  with float_summation_sequential w n sw sn show ?thesis by simp
qed

subsection \<open>Algebra of the filters\<close>

text \<open>
  C3. The two filters commute: the Region filter followed by the Category filter keeps the
  same rows as the Category filter followed by the Region filter, and that is the subset
  the engine returns.
\<close>

theorem C3_order_independent:
  "by_category c (by_region r T) = by_region r (by_category c T)
   \<and> fst (apply_selection np_sum T r c) = by_region r (by_category c T)"
  by (auto simp add: fst_apply_selection filtered_data_def by_category_def by_region_def copy_def
      intro: filter_cong)

theorem C3_order_independent_witness:
  "by_category Furniture (by_region West three_rows) = [row_west]
   \<and> by_region West (by_category Furniture three_rows) = [row_west]"
  using C3_order_independent [of Furniture West three_rows sequential_sum]
  by (simp add: fst_apply_selection filtered_three_west_furniture
        flip: filtered_data_def [of West Furniture three_rows, unfolded copy_def])

text \<open>
  C4. With \<^verbatim>\<open>All\<close> selected for both attributes the subset is the table itself, and for a
  non-empty table the summary is the aggregate of the whole table: the float64 sums of its
  Sales and Profit columns and the float64 mean of its Discount column times 100.
\<close>

theorem C4_all_identity:
  assumes "float_summation np_sum"
  shows "fst (apply_selection np_sum T All_sentinel All_sentinel) = T
   \<and> (T \<noteq> [] \<longrightarrow>
        snd (apply_selection np_sum T All_sentinel All_sentinel) =
          Some \<lparr> sum_sales = series_sum np_sum (map Sales T),
                 sum_profit = series_sum np_sum (map Profit T),
                 avg_discount_perc = fmul (series_mean np_sum (map Discount T)) (Finite 100) \<rparr>)
   \<and> is_float_sum (fillna0 (map Sales T)) (series_sum np_sum (map Sales T))
   \<and> is_float_sum (fillna0 (map Profit T)) (series_sum np_sum (map Profit T))"
  using assms
  by (simp add: fst_apply_selection snd_apply_selection filtered_data_filter quick_summary_def
      float_summation_def series_sum_def)

text \<open>
  The three example rows, the cells added one after the other: the discounts 0.1, 0.2 and
  0 have the average 10.000000000000002 in float64.
\<close>

theorem C4_all_identity_witness:
  "float_summation sequential_sum \<and> three_rows \<noteq> []
   \<and> apply_selection sequential_sum three_rows All_sentinel All_sentinel =
       (three_rows,
        Some \<lparr> sum_sales = Finite 350, sum_profit = Finite 45,
               avg_discount_perc = Finite dbl_10_up \<rparr>)"
proof -
  have ne: "three_rows \<noteq> []" by (simp add: three_rows_def)
  from C4_all_identity [OF float_summation_sequential, of three_rows] ne summary_three_rows
  show ?thesis by (simp add: prod_eq_iff quick_summary_def float_summation_sequential)
qed

text \<open>
  C5. Filtering is idempotent: applying the same selection to the subset it produced
  returns that subset again.
\<close>

theorem C5_idempotent:
  "fst (apply_selection np_sum (fst (apply_selection np_sum T r c)) r c)
     = fst (apply_selection np_sum T r c)"
  by (simp add: fst_apply_selection filtered_data_filter)

theorem C5_idempotent_witness:
  "fst (apply_selection sequential_sum [row_west] West Furniture) = [row_west]"
  using C5_idempotent [of sequential_sum three_rows West Furniture]
  by (simp add: fst_apply_selection filtered_three_west_furniture)

subsection \<open>The original table\<close>

lemma filtering_logic_eq:
  "filtering_logic sd r c h =
     (let h1 = h @ [h ! sd];
          h2 = (if r \<noteq> All_sentinel then h1 @ [filter (\<lambda>x. Region x = r) (h ! sd)] else h1);
          h3 = (if c \<noteq> All_sentinel then h2 @ [filter (\<lambda>x. Category x = c) (last h2)] else h2)
      in (length h3 - 1, h3))"
  by (simp add: filtering_logic_def frame_copy_def frame_mask_def new_frame_def copy_def Let_def
      nth_append)

text \<open>
  C6. The filtering never changes the original table. Run on the store, the filtering
  logic leaves the frame bound to \<^verbatim>\<open>store_data\<close>, and every other frame that existed
  before, as it was; the result is a different frame, and it holds the subset that the
  engine returns.
\<close>

theorem C6_original_unchanged:
  assumes "store_data < length h"
    and "filtering_logic store_data r c h = (fd, h')"
  shows "h' ! store_data = h ! store_data
         \<and> take (length h) h' = h
         \<and> fd \<noteq> store_data \<and> fd < length h'
         \<and> h' ! fd = fst (apply_selection np_sum (h ! store_data) r c)"
  using assms
  by (auto simp add: filtering_logic_eq Let_def nth_append fst_apply_selection filtered_data_def
        by_region_def by_category_def copy_def split: if_splits)

text \<open>
  A store holding the three example rows at reference 0: the run adds three frames and
  frame 0 is unchanged.
\<close>

theorem C6_original_unchanged_witness:
  "(0::nat) < length [three_rows]
   \<and> filtering_logic 0 West Furniture [three_rows]
       = (3, [three_rows, three_rows, [row_west, row_west_office], [row_west]])
   \<and> [three_rows, three_rows, [row_west, row_west_office], [row_west]] ! 0 = [three_rows] ! 0"
proof -
  have run: "filtering_logic 0 West Furniture [three_rows]
       = (3, [three_rows, three_rows, [row_west, row_west_office], [row_west]])"
    by (simp add: filtering_logic_eq Let_def example_defs)
  from C6_original_unchanged [OF _ run, of sequential_sum] run show ?thesis by simp
qed

subsection \<open>Range of the average discount\<close>

lemma mean_percent_range:
  assumes "float_summation np_sum"
    and "ds \<noteq> []"
    and "\<forall>x \<in> set ds. \<exists>v. x = Finite v \<and> 0 \<le> v \<and> v \<le> 1"
    and "length ds < 2 ^ 53"
  shows "\<exists>p. fmul (series_mean np_sum ds) (Finite 100) = Finite p \<and> 0 \<le> p \<and> p \<le> 100"
proof -
  let ?n = "length ds"
  from assms(3) have nonan: "NaN \<notin> set ds" by auto
  have fill: "fillna0 ds = ds" using nonan by (rule fillna0_id)
  from assms(1) have "is_float_sum ds (np_sum ds)" by (simp add: float_summation_def)
  from float_sum_unit_bound [OF this assms(3) assms(4)]
  obtain \<sigma> where sum: "np_sum ds = Finite \<sigma>" "0 \<le> \<sigma>" "\<sigma> \<le> real ?n" by blast
  have npos: "0 < real ?n" using assms(2) by simp
  have cnt: "round64 (real ?n) = Finite (real ?n)" using assms(4) by (rule round64_nat)
  have mean: "series_mean np_sum ds = round64 (\<sigma> / real ?n)"
    using series_mean_no_NaN [OF nonan assms(2), of np_sum] sum(1) cnt npos
    by (simp add: series_sum_def fill)
  have "real (0::nat) \<le> \<sigma> / real ?n" using sum(2) npos by simp
  moreover have "\<sigma> / real ?n \<le> real (1::nat)" using sum(3) npos by (simp add: divide_le_eq)
  ultimately obtain \<mu> where mu: "round64 (\<sigma> / real ?n) = Finite \<mu>" "0 \<le> \<mu>" "\<mu> \<le> 1"
    using round64_between [of 0 "\<sigma> / real ?n" 1] by auto
  have "real (0::nat) \<le> \<mu> * 100" using mu(2) by simp
  moreover have "\<mu> * 100 \<le> real (100::nat)" using mu(3) by simp
  ultimately obtain p where p: "round64 (\<mu> * 100) = Finite p" "0 \<le> p" "p \<le> 100"
    using round64_between [of 0 "\<mu> * 100" 100] by auto
  from mean mu(1) p show ?thesis by simp
qed

text \<open>
  C9. For a non-empty filtered subset whose discounts all lie between 0 and 1, the summary
  exists and its average discount, the float64 mean of the discounts times 100, lies
  between 0 and 100. This holds for every order in which the cells are added up, with
  every rounding of the sum, of the division and of the product taken into account; the
  subset has fewer than \<open>2 ^ 53\<close> rows, so that their number is a float64 number.
\<close>

theorem C9_discount_percent_range:
  assumes "float_summation np_sum"
    and "fst (apply_selection np_sum T r c) \<noteq> []"
    and "\<forall>x \<in> set (fst (apply_selection np_sum T r c)).
           \<exists>v. Discount x = Finite v \<and> 0 \<le> v \<and> v \<le> 1"
    and "length (fst (apply_selection np_sum T r c)) < 2 ^ 53"
  shows "\<exists>s p. snd (apply_selection np_sum T r c) = Some s
             \<and> avg_discount_perc s =
                 fmul (series_mean np_sum (map Discount (fst (apply_selection np_sum T r c))))
                      (Finite 100)
             \<and> avg_discount_perc s = Finite p \<and> 0 \<le> p \<and> p \<le> 100"
proof -
  let ?S = "fst (apply_selection np_sum T r c)"
  from assms(2) have ne: "map Discount ?S \<noteq> []" by simp
  from assms(3) have rng: "\<forall>x \<in> set (map Discount ?S). \<exists>v. x = Finite v \<and> 0 \<le> v \<and> v \<le> 1"
    by simp
  from assms(4) have len: "length (map Discount ?S) < 2 ^ 53" by simp
  from mean_percent_range [OF assms(1) ne rng len] assms(2) show ?thesis
    by (simp add: snd_apply_selection fst_apply_selection quick_summary_def)
qed

text \<open>
  Region \<^verbatim>\<open>West\<close> on the three example rows, the cells added one after the other:
  discounts 0.1 and 0, average discount 5.
\<close>

theorem C9_discount_percent_range_witness:
  "float_summation sequential_sum
   \<and> fst (apply_selection sequential_sum three_rows West All_sentinel) = [row_west, row_west_office]
   \<and> Discount row_west = Finite dbl_0_1 \<and> 0 \<le> dbl_0_1 \<and> dbl_0_1 \<le> 1
   \<and> Discount row_west_office = Finite 0
   \<and> snd (apply_selection sequential_sum three_rows West All_sentinel) =
       Some \<lparr> sum_sales = Finite 150, sum_profit = Finite 5, avg_discount_perc = Finite 5 \<rparr>"
proof -
  let ?A = "apply_selection sequential_sum three_rows West All_sentinel"
  have w: "fst ?A = [row_west, row_west_office]"
    by (simp add: fst_apply_selection filtered_three_west)
  have ne: "fst ?A \<noteq> []" by (simp add: w)
  have d: "0 \<le> dbl_0_1" "dbl_0_1 \<le> 1" by (simp_all add: dbl_0_1_def)
  have rng: "\<forall>x \<in> set (fst ?A). \<exists>v. Discount x = Finite v \<and> 0 \<le> v \<and> v \<le> 1"
    using d by (simp add: w row_west_def row_west_office_def)
  have len: "length (fst ?A) < 2 ^ 53" by (simp add: w)
  from C9_discount_percent_range [OF float_summation_sequential ne rng len]
  obtain s p where s: "snd ?A = Some s" and "avg_discount_perc s = Finite p" by blast
  have v: "snd ?A = Some \<lparr> sum_sales = Finite 150, sum_profit = Finite 5,
                            avg_discount_perc = Finite 5 \<rparr>"
    using summary_two_west by (simp add: snd_apply_selection filtered_three_west)
  from float_summation_sequential w d v show ?thesis
    by (simp add: row_west_def row_west_office_def)
qed

subsection \<open>Loading\<close>

lemma to_datetime_from_coerce:
  "\<exists>ds. to_datetime_from clock fmt Coerce i cells = Inr ds \<and> length ds = length cells
        \<and> (\<forall>j < length cells. ds ! j = coerced clock fmt (i + j) (cells ! j))"
proof (induction cells arbitrary: i)
  case Nil
  show ?case by simp
next
  case (Cons cell cells)
  from Cons [of "Suc i"] obtain ds where
    ds: "to_datetime_from clock fmt Coerce (Suc i) cells = Inr ds" "length ds = length cells"
      "\<forall>j < length cells. ds ! j = coerced clock fmt (Suc i + j) (cells ! j)"
    by blast
  have "to_datetime_from clock fmt Coerce i (cell # cells) = Inr (coerced clock fmt i cell # ds)"
    using ds(1) by (cases cell) (auto simp: coerced_def split: sum.splits)
  moreover have "\<forall>j < length (cell # cells).
      (coerced clock fmt i cell # ds) ! j = coerced clock fmt (i + j) ((cell # cells) ! j)"
    using ds(3) by (auto simp: nth_Cons split: nat.splits)
  ultimately show ?case using ds(2) by simp
qed

lemma get_data_try_loaded:
  assumes "read_csv p = Inr data"
  shows "\<exists>t. get_data_try clock read_csv p = Inr t \<and> length t = length data
           \<and> (\<forall>i < length data.
                 t ! i = set_Order_Date (data ! i)
                           (coerced clock format_mdY i (Order_Date (data ! i))))"
proof -
  from to_datetime_from_coerce [of clock format_mdY 0 "map Order_Date data"]
  obtain ds where
    ds: "to_datetime clock format_mdY Coerce (map Order_Date data) = Inr ds"
      "length ds = length data"
      "\<forall>j < length data. ds ! j = coerced clock format_mdY j (Order_Date (data ! j))"
    by (auto simp: to_datetime_def)
  have "get_data_try clock read_csv p = Inr (map2 set_Order_Date data ds)"
    using assms ds(1) by (simp add: get_data_try_def)
  moreover have "length (map2 set_Order_Date data ds) = length data"
    using ds(2) by simp
  moreover have "\<forall>i < length data.
      map2 set_Order_Date data ds ! i
        = set_Order_Date (data ! i) (coerced clock format_mdY i (Order_Date (data ! i)))"
    using ds(2) ds(3) by simp
  ultimately show ?thesis by blast
qed

lemma get_data_not_found:
  "read_csv p = Inl FileNotFoundError \<Longrightarrow>
     get_data clock read_csv p = Inr ([StError p, StInfo], None)"
  by (simp add: get_data_def get_data_try_def)

lemma get_data_None_only_not_found:
  assumes "get_data clock read_csv p = Inr (shown, None)"
  shows "read_csv p = Inl FileNotFoundError"
proof (cases "read_csv p")
  case (Inl e)
  with assms show ?thesis
    by (cases e) (simp_all add: get_data_def get_data_try_def)
next
  case (Inr data)
  from Inr get_data_try_loaded [of read_csv p data clock] assms show ?thesis
    by (auto simp: get_data_def)
qed

text \<open>
  C7. When the file does not exist, \<^verbatim>\<open>get_data\<close> does not raise: it shows its two
  messages and returns \<^verbatim>\<open>None\<close>. The page then consists of these messages, the title, the
  introduction and the warning, and nothing else. Whenever the page shows anything that
  comes from the engine (the number of records, the filtered table, the metrics), the
  loader had returned a table.
\<close>

theorem C7_not_found:
  "(read_csv p = Inl FileNotFoundError \<longrightarrow>
      get_data clock read_csv p = Inr ([StError p, StInfo], None))
   \<and> (read_csv (str ''Superstore.csv'') = Inl FileNotFoundError \<longrightarrow>
      dashboard clock np_sum read_csv r c =
        Inr [StError (str ''Superstore.csv''), StInfo, StTitle, StWrite, StWarning])
   \<and> (\<forall>shown. dashboard clock np_sum read_csv r c = Inr shown \<longrightarrow>
        (\<exists>e \<in> set shown. engine_output e) \<longrightarrow>
        (\<exists>data. get_data clock read_csv (str ''Superstore.csv'') = Inr ([], Some data)
                \<and> shown = [StTitle, StWrite] @ results np_sum r c data))"
proof (intro conjI impI allI)
  assume "read_csv p = Inl FileNotFoundError"
  then show "get_data clock read_csv p = Inr ([StError p, StInfo], None)"
    by (rule get_data_not_found)
next
  assume nf: "read_csv (str ''Superstore.csv'') = Inl FileNotFoundError"
  from nf get_data_not_found [of read_csv "str ''Superstore.csv''" clock]
  show "dashboard clock np_sum read_csv r c =
        Inr [StError (str ''Superstore.csv''), StInfo, StTitle, StWrite, StWarning]"
    by (simp add: dashboard_def)
next
  fix shown
  assume run: "dashboard clock np_sum read_csv r c = Inr shown"
    and eng: "\<exists>e \<in> set shown. engine_output e"
  show "\<exists>data. get_data clock read_csv (str ''Superstore.csv'') = Inr ([], Some data)
                \<and> shown = [StTitle, StWrite] @ results np_sum r c data"
  proof (cases "get_data clock read_csv (str ''Superstore.csv'')")
    case (Inl e)
    with run show ?thesis by (simp add: dashboard_def)
  next
    case (Inr res)
    obtain msgs sd where res: "res = (msgs, sd)" by (cases res)
    show ?thesis
    proof (cases sd)
      case None
      from Inr res None have nf: "read_csv (str ''Superstore.csv'') = Inl FileNotFoundError"
        by (auto dest: get_data_None_only_not_found)
      from nf get_data_not_found [of read_csv "str ''Superstore.csv''" clock] run
      have "shown = [StError (str ''Superstore.csv''), StInfo, StTitle, StWrite, StWarning]"
        by (simp add: dashboard_def)
      with eng show ?thesis by simp
    next
      case (Some data)
      from Inr res Some have "msgs = []"
        by (auto simp add: get_data_def split: sum.splits py_exception.splits)
      with Inr res Some run show ?thesis
        by (simp add: dashboard_def)
    qed
  qed
qed

theorem C7_not_found_witness:
  "read_csv_absent (str ''Superstore.csv'') = Inl FileNotFoundError
   \<and> get_data clock_noon read_csv_absent (str ''Superstore.csv'')
       = Inr ([StError (str ''Superstore.csv''), StInfo], None)
   \<and> dashboard clock_noon sequential_sum read_csv_absent West All_sentinel
       = Inr [StError (str ''Superstore.csv''), StInfo, StTitle, StWrite, StWarning]
   \<and> \<not> (\<exists>e \<in> set [StError (str ''Superstore.csv''), StInfo, StTitle, StWrite, StWarning].
            engine_output e)"
  using C7_not_found [of read_csv_absent "str ''Superstore.csv''" clock_noon sequential_sum
      West All_sentinel]
  by (simp add: read_csv_absent_def)

lemma strptime_examples:
  "strptime format_mdY date_padded = Some \<lparr> year = 2024, month = 1, day = 15, nanos = 0 \<rparr>"
  "strptime format_mdY date_iso = None"
  "strptime format_mdY date_short = Some \<lparr> year = 2016, month = 11, day = 8, nanos = 0 \<rparr>"
  "strptime format_mdY word_now = None"
  "strptime format_mdY word_today = None"
  by (simp_all add: strptime_def format_mdY_def date_padded_def date_iso_def date_short_def
      word_now_def word_today_def is_digit_def days_in_month_def leap_def)

lemma strptime_null_texts:
  "strptime format_mdY [] = None"
  "s \<in> set nat_strings \<Longrightarrow> strptime format_mdY s = None"
  by (auto simp add: strptime_def format_mdY_def nat_strings_def is_digit_def)

lemma coerced_cases:
  "coerced clock format_mdY i None = None"
  "s = word_now \<or> s = word_today \<Longrightarrow> coerced clock format_mdY i (Some s) = Some (clock i)"
  "s \<noteq> word_now \<Longrightarrow> s \<noteq> word_today \<Longrightarrow>
     coerced clock format_mdY i (Some s) = strptime format_mdY s"
proof -
  show "coerced clock format_mdY i None = None" by (simp add: coerced_def)
  have w: "word_now \<noteq> []" "word_today \<noteq> []" "word_now \<notin> set nat_strings"
    "word_today \<notin> set nat_strings"
    by (simp_all add: word_now_def word_today_def nat_strings_def)
  show "s = word_now \<or> s = word_today \<Longrightarrow> coerced clock format_mdY i (Some s) = Some (clock i)"
    using w by (auto simp: coerced_def convert_def)
  show "s \<noteq> word_now \<Longrightarrow> s \<noteq> word_today \<Longrightarrow>
     coerced clock format_mdY i (Some s) = strptime format_mdY s"
    using strptime_null_texts(1) strptime_null_texts(2) [of s]
    by (auto simp: coerced_def convert_def split: option.splits)
qed

text \<open>
  The word \<^verbatim>\<open>now\<close> does not parse under the format, and yet the cell is not null
  after loading: it holds the time of the clock.
\<close>

theorem C8_now_counterexample:
  "strptime format_mdY word_now = None
   \<and> read_csv_now (str ''Superstore.csv'') = Inr [raw_now]
   \<and> Order_Date raw_now = Some word_now
   \<and> get_data clock_noon read_csv_now (str ''Superstore.csv'')
       = Inr ([], Some [set_Order_Date raw_now (Some noon)])"
proof -
  have c: "coerced clock_noon format_mdY 0 (Some word_now) = Some noon"
    using coerced_cases(2) [where s = word_now and clock = clock_noon and i = 0]
    by (simp add: clock_noon_def)
  have "to_datetime clock_noon format_mdY Coerce [Some word_now] = Inr [Some noon]"
    using c by (auto simp: to_datetime_def coerced_def split: sum.splits)
  then show ?thesis
    by (simp add: strptime_examples read_csv_now_def get_data_def get_data_try_def raw_now_def
        set_Order_Date_def)
qed

text \<open>
  C8. When the file is read, \<^verbatim>\<open>get_data\<close> does not raise, whatever the \<^verbatim>\<open>Order Date\<close>
  cells hold. It returns a table with one row for each row read, in order, with the same
  Region, Category, Sales, Profit and Discount. A missing cell holds the null date. A cell
  with the word \<^verbatim>\<open>now\<close> or \<^verbatim>\<open>today\<close> holds the time of the clock. Every other cell holds
  what parsing its text under the format \<^verbatim>\<open>%m/%d/%Y\<close> gives: the date when the text
  parses, the null date when it does not.
\<close>

theorem C8_date_coercion:
  assumes "read_csv p = Inr data"
  shows "\<exists>t. get_data clock read_csv p = Inr ([], Some t)
           \<and> length t = length data
           \<and> (\<forall>i < length data.
                 Region (t ! i) = Region (data ! i)
               \<and> Category (t ! i) = Category (data ! i)
               \<and> Sales (t ! i) = Sales (data ! i)
               \<and> Profit (t ! i) = Profit (data ! i)
               \<and> Discount (t ! i) = Discount (data ! i)
               \<and> (Order_Date (data ! i) = None \<longrightarrow> Order_Date (t ! i) = None)
               \<and> (\<forall>s. Order_Date (data ! i) = Some s \<longrightarrow>
                      (if s = word_now \<or> s = word_today
                       then Order_Date (t ! i) = Some (clock i)
                       else Order_Date (t ! i) = strptime format_mdY s)))"
proof -
  from assms get_data_try_loaded [of read_csv p data clock] obtain t where
    t: "get_data_try clock read_csv p = Inr t" "length t = length data"
      "\<forall>i < length data.
         t ! i = set_Order_Date (data ! i) (coerced clock format_mdY i (Order_Date (data ! i)))"
    by blast
  have "get_data clock read_csv p = Inr ([], Some t)"
    using t(1) by (simp add: get_data_def)
  moreover have "\<forall>i < length data.
                 Region (t ! i) = Region (data ! i)
               \<and> Category (t ! i) = Category (data ! i)
               \<and> Sales (t ! i) = Sales (data ! i)
               \<and> Profit (t ! i) = Profit (data ! i)
               \<and> Discount (t ! i) = Discount (data ! i)
               \<and> (Order_Date (data ! i) = None \<longrightarrow> Order_Date (t ! i) = None)
               \<and> (\<forall>s. Order_Date (data ! i) = Some s \<longrightarrow>
                      (if s = word_now \<or> s = word_today
                       then Order_Date (t ! i) = Some (clock i)
                       else Order_Date (t ! i) = strptime format_mdY s))"
  proof (intro allI impI)
    fix i assume i: "i < length data"
    with t(3) have e: "t ! i = set_Order_Date (data ! i)
                                (coerced clock format_mdY i (Order_Date (data ! i)))"
      by blast
    show "Region (t ! i) = Region (data ! i)
               \<and> Category (t ! i) = Category (data ! i)
               \<and> Sales (t ! i) = Sales (data ! i)
               \<and> Profit (t ! i) = Profit (data ! i)
               \<and> Discount (t ! i) = Discount (data ! i)
               \<and> (Order_Date (data ! i) = None \<longrightarrow> Order_Date (t ! i) = None)
               \<and> (\<forall>s. Order_Date (data ! i) = Some s \<longrightarrow>
                      (if s = word_now \<or> s = word_today
                       then Order_Date (t ! i) = Some (clock i)
                       else Order_Date (t ! i) = strptime format_mdY s))"
      unfolding e by (auto simp: set_Order_Date_def coerced_cases)
  qed
  ultimately show ?thesis using t(2) by blast
qed

text \<open>
  The three example rows: \<^verbatim>\<open>2024-13-40\<close> loads as the null date between two rows whose
  dates are parsed.
\<close>

theorem C8_date_coercion_witness:
  "read_csv_present (str ''Superstore.csv'') = Inr raw_example
   \<and> (\<exists>t. get_data clock_noon read_csv_present (str ''Superstore.csv'') = Inr ([], Some t)
          \<and> length t = 3
          \<and> Order_Date (t ! 0) = Some \<lparr> year = 2024, month = 1, day = 15, nanos = 0 \<rparr>
          \<and> Order_Date (t ! 1) = None
          \<and> Order_Date (t ! 2) = Some \<lparr> year = 2016, month = 11, day = 8, nanos = 0 \<rparr>
          \<and> Region (t ! 1) = East \<and> Sales (t ! 1) = Finite 200
          \<and> Region (t ! 2) = West \<and> Sales (t ! 2) = Finite 50)"
proof -
  have present: "read_csv_present (str ''Superstore.csv'') = Inr raw_example"
    by (simp add: read_csv_present_def)
  have w: "date_padded \<noteq> word_now" "date_padded \<noteq> word_today" "date_iso \<noteq> word_now"
    "date_iso \<noteq> word_today" "date_short \<noteq> word_now" "date_short \<noteq> word_today"
    by (simp_all add: date_padded_def date_iso_def date_short_def word_now_def word_today_def)
  from present
    C8_date_coercion [of read_csv_present "str ''Superstore.csv''" raw_example clock_noon]
  obtain t where t: "get_data clock_noon read_csv_present (str ''Superstore.csv'') = Inr ([], Some t)"
    and len: "length t = length raw_example"
    and rows: "\<forall>i < length raw_example.
                 Region (t ! i) = Region (raw_example ! i)
               \<and> Category (t ! i) = Category (raw_example ! i)
               \<and> Sales (t ! i) = Sales (raw_example ! i)
               \<and> Profit (t ! i) = Profit (raw_example ! i)
               \<and> Discount (t ! i) = Discount (raw_example ! i)
               \<and> (Order_Date (raw_example ! i) = None \<longrightarrow> Order_Date (t ! i) = None)
               \<and> (\<forall>s. Order_Date (raw_example ! i) = Some s \<longrightarrow>
                      (if s = word_now \<or> s = word_today
                       then Order_Date (t ! i) = Some (clock_noon i)
                       else Order_Date (t ! i) = strptime format_mdY s))"
    by blast
  from rows [rule_format, of 0]
  have a: "Order_Date (t ! 0) = Some \<lparr> year = 2024, month = 1, day = 15, nanos = 0 \<rparr>"
    using w by (simp add: raw_example_def raw_good_def strptime_examples)
  from rows [rule_format, of 1]
  have b: "Order_Date (t ! 1) = None" "Region (t ! 1) = East" "Sales (t ! 1) = Finite 200"
    using w by (simp_all add: raw_example_def raw_bad_def strptime_examples)
  from rows [rule_format, of 2]
  have c: "Order_Date (t ! 2) = Some \<lparr> year = 2016, month = 11, day = 8, nanos = 0 \<rparr>"
    "Region (t ! 2) = West" "Sales (t ! 2) = Finite 50"
    using w by (simp_all add: raw_example_def raw_short_def strptime_examples)
  from len have "length t = 3" by (simp add: raw_example_def)
  with present t a b c show ?thesis by blast
qed

subsection \<open>Drop-down options\<close>

lemma set_unique: "set (unique xs) = set xs"
  by (induction xs rule: unique.induct) auto

lemma distinct_unique: "distinct (unique xs)"
  by (induction xs rule: unique.induct) (auto simp: set_unique)

text \<open>
  The values returned are those of the column. When a region is itself called \<^verbatim>\<open>All\<close>,
  that value is among them.
\<close>

theorem C10_sentinel_counterexample:
  "All_sentinel \<in> set (distinctValues [row_named_all] Region)"
  by (simp add: distinctValues_def row_named_all_def)

text \<open>
  C10. For every table and attribute, \<^verbatim>\<open>distinctValues\<close> returns the values of the
  column in ascending lexical order of code points, without duplicates. It returns the
  values of the column and nothing else: \<^verbatim>\<open>All\<close> is among them exactly when the column
  holds it. The caller puts the sentinel in front.
\<close>

theorem C10_distinct_values:
  "sorted (distinctValues T a) \<and> distinct (distinctValues T a)
   \<and> set (distinctValues T a) = a ` set T
   \<and> (All_sentinel \<in> set (distinctValues T a) \<longleftrightarrow> (\<exists>x \<in> set T. a x = All_sentinel))
   \<and> region_options T = All_sentinel # distinctValues T Region
   \<and> category_options T = All_sentinel # distinctValues T Category"
  by (simp add: distinctValues_def region_options_def category_options_def
        set_unique distinct_unique image_iff eq_commute [of All_sentinel])

theorem C10_distinct_values_witness:
  "distinctValues three_rows Region = [East, West]
   \<and> distinctValues three_rows Category = [Furniture, Office_Supplies]
   \<and> region_options three_rows = [All_sentinel, East, West]
   \<and> All_sentinel \<notin> set (distinctValues three_rows Region)
   \<and> \<not> (\<exists>x \<in> set three_rows. Region x = All_sentinel)"
proof -
  have r: "distinctValues three_rows Region = [East, West]"
    by (simp add: distinctValues_def example_defs)
  have c: "distinctValues three_rows Category = [Furniture, Office_Supplies]"
    by (simp add: distinctValues_def example_defs)
  have o: "region_options three_rows = [All_sentinel, East, West]"
    using C10_distinct_values [of three_rows Region] r by simp
  have n: "All_sentinel \<notin> set [East, West]"
    by (simp add: string_defs)
  have nn: "\<not> (\<exists>x \<in> set three_rows. Region x = All_sentinel)"
    by (simp add: example_defs)
  from r c o n nn show ?thesis
    by simp
qed

end
